theory Spec2Isabelle
  imports Complex_Main "HOL-Library.Word"
begin

section \<open>The expression generator of the fuzzer (tools/fuzzer/expr_gen.cc)\<close>

text \<open>
  The development embeds \<^verbatim>\<open>src/tools/fuzzer/expr_gen.cc\<close>. The generator
  draws from a pseudo-random engine through the methods of \<^verbatim>\<open>DefaultGeneratorRng\<close>
  and builds an expression tree by recursion over a vector of weights.

  Modelling decisions:
  \<^item> \<^verbatim>\<open>float\<close> and \<^verbatim>\<open>double\<close> are idealised as \<open>real\<close>: no
    rounding, no overflow. \<^verbatim>\<open>uint64_t\<close> is \<open>64 word\<close>, \<^verbatim>\<open>size_t\<close>
    is \<open>nat\<close> (no computation on it can wrap here).
  \<^item> The engine is the sequence of its outputs together with the number of outputs
    consumed so far. A seed fixes the whole output sequence; quantifying over all
    sequences covers every seed.
  \<^item> The standard distributions are outside the repository. Each one is modelled by
    its contract: one engine output is consumed and mapped into the range of the
    distribution; parameters outside the precondition of the standard are an error value.
  \<^item> \<^verbatim>\<open>assert\<close> (assertions are enabled) and \<^verbatim>\<open>lldb_eval_unreachable\<close>
    abort the process; they are the error values \<open>AssertionFailed\<close> and
    \<open>Unreachable\<close>. A run that aborts returns no state.
  \<^item> \<^verbatim>\<open>const Weights&\<close> is a reference. The \<^verbatim>\<open>Weights\<close> objects live on a
    stack of frames; a reference is an index into this stack.
  \<^item> The recursion of \<^verbatim>\<open>gen_with_weights\<close> has no bound in the source. The model
    carries a bound on the nesting of calls; the value \<open>None\<close> says that the bound
    was reached before the run returned.
\<close>

subsection \<open>Expression trees\<close>

type_synonym BinOp = nat
type_synonym UnOp = nat

datatype Expr =
    IntegerConstant "64 word"
  | DoubleConstant real
  | VariableExpr string
  | UnaryExpr UnOp Expr
  | BinaryExpr Expr BinOp Expr
  | ParenthesizedExpr Expr

text \<open>
  The headers \<^verbatim>\<open>tools/fuzzer/ast.h\<close> and \<^verbatim>\<open>tools/fuzzer/expr_gen.h\<close> are not
  part of the sources at hand. What the generator takes from them is a parameter:
  the precedence table of the binary operators, the constant
  \<^verbatim>\<open>UnaryExpr::PRECEDENCE\<close>, the precedence of the atoms, the name \<^verbatim>\<open>VAR\<close> and
  the value of a default-constructed \<^verbatim>\<open>Weights\<close>.
\<close>

datatype ExprKind =
    ExprKind_IntegerConstant
  | ExprKind_DoubleConstant
  | ExprKind_VariableExpr
  | ExprKind_BinaryExpr
  | ExprKind_UnaryExpr

text \<open>
  Modelled from the spec: the order of the enumerators of \<^verbatim>\<open>ExprKind\<close>, which the
  absent header declares. An array indexed by \<^verbatim>\<open>ExprKind\<close> is a function on the
  enumeration; a loop over its indices visits \<open>all_expr_kinds\<close> in order.
\<close>

definition all_expr_kinds :: "ExprKind list" where
  "all_expr_kinds =
     [ExprKind_IntegerConstant, ExprKind_DoubleConstant, ExprKind_VariableExpr,
      ExprKind_BinaryExpr, ExprKind_UnaryExpr]"

text \<open>
  Modelled from the spec: \<^verbatim>\<open>TypeKind\<close>, of which only \<^verbatim>\<open>ScalarType\<close> is named;
  the array of type weights is a list and \<^verbatim>\<open>(TypeKind)i\<close> is the enumerator of index
  \<open>i\<close>, \<^verbatim>\<open>ScalarType\<close> being the first.
\<close>

datatype TypeKind = ScalarType | TypeKind_index nat

definition TypeKind_of_index :: "nat \<Rightarrow> TypeKind" where
  "TypeKind_of_index i = (if i = 0 then ScalarType else TypeKind_index i)"

datatype CvQualifier = Const | Volatile

type_synonym CvQualifiers = "CvQualifier set"

record Weights =
  expr_weights :: "ExprKind \<Rightarrow> real"
  type_weights :: "real list"

record header_decls =
  bin_op_precedence :: "BinOp \<Rightarrow> int"
  UnaryExpr_PRECEDENCE :: int
  atom_precedence :: int
  VAR :: string
  Weights_default :: Weights

text \<open>
  Modelled from the spec: the \<^verbatim>\<open>precedence()\<close> members of the expression classes
  (declared in the absent \<^verbatim>\<open>ast.h\<close>). Constants, variables and parenthesised
  expressions bind tightest, a unary expression has the fixed precedence
  \<^verbatim>\<open>UnaryExpr::PRECEDENCE\<close>, a binary expression that of its operator.
\<close>

fun expr_precedence :: "header_decls \<Rightarrow> Expr \<Rightarrow> int" where
  "expr_precedence D (IntegerConstant v) = atom_precedence D"
| "expr_precedence D (DoubleConstant v) = atom_precedence D"
| "expr_precedence D (VariableExpr x) = atom_precedence D"
| "expr_precedence D (UnaryExpr op e) = UnaryExpr_PRECEDENCE D"
| "expr_precedence D (BinaryExpr l op r) = bin_op_precedence D op"
| "expr_precedence D (ParenthesizedExpr e) = atom_precedence D"

subsection \<open>Configuration\<close>

record WeightInfo =
  initial_weight :: real
  dampening_factor :: real

text \<open>
  Modelled from the spec: the configuration record, which the absent header
  \<^verbatim>\<open>expr_gen.h\<close> declares. The fields that \<^verbatim>\<open>expr_gen.cc\<close> reads keep
  the names they have there; \<open>const_prob\<close>, \<open>volatile_prob\<close> and
  \<open>type_kind_weights\<close> are the qualifier probabilities and the table of type-kind
  weights of section 6 of the specification, which \<^verbatim>\<open>expr_gen.cc\<close> never reads.
\<close>

record GenConfig =
  int_const_min :: "64 word"
  int_const_max :: "64 word"
  double_constant_min :: real
  double_constant_max :: real
  bin_op_mask :: "bool list"
  un_op_mask :: "bool list"
  parenthesize_prob :: real
  const_prob :: real
  volatile_prob :: real
  expr_kind_weights :: "ExprKind \<Rightarrow> WeightInfo"
  type_kind_weights :: "WeightInfo list"

subsection \<open>The engine and the standard distributions\<close>

datatype error = AssertionFailed | Unreachable | DistributionPrecondition

datatype rng_call =
    Call_gen_bin_op
  | Call_gen_un_op
  | Call_gen_u64
  | Call_gen_double
  | Call_gen_cv_qualifiers
  | Call_gen_parenthesize
  | Call_gen_expr_kind
  | Call_gen_type_kind

text \<open>
  The state of a \<^verbatim>\<open>DefaultGeneratorRng\<close>: its engine \<^verbatim>\<open>rng_\<close> (output
  sequence and position) and, as a ghost field, the list of the methods called on
  the object so far.
\<close>

record rng_state =
  engine_outputs :: "nat \<Rightarrow> nat"
  engine_pos :: nat
  calls_made :: "rng_call list"

definition engine_next :: "rng_state \<Rightarrow> nat \<times> rng_state" where
  "engine_next r = (engine_outputs r (engine_pos r), r\<lparr>engine_pos := Suc (engine_pos r)\<rparr>)"

definition note_call :: "rng_call \<Rightarrow> rng_state \<Rightarrow> rng_state" where
  "note_call c r = r\<lparr>calls_made := calls_made r @ [c]\<rparr>"

definition generate_canonical :: "nat \<Rightarrow> real" where
  "generate_canonical n = real (n mod 2 ^ 32) / 2 ^ 32"

definition uniform_int_distribution ::
    "nat \<Rightarrow> nat \<Rightarrow> rng_state \<Rightarrow> error + nat \<times> rng_state" where
  "uniform_int_distribution a b r =
     (if a \<le> b then
        (case engine_next r of (n, r') \<Rightarrow> Inr (a + n mod (b - a + 1), r'))
      else Inl DistributionPrecondition)"

definition uniform_real_distribution ::
    "real \<Rightarrow> real \<Rightarrow> rng_state \<Rightarrow> error + real \<times> rng_state" where
  "uniform_real_distribution a b r =
     (if a \<le> b then
        (case engine_next r of (n, r') \<Rightarrow> Inr (a + (b - a) * generate_canonical n, r'))
      else Inl DistributionPrecondition)"

definition bernoulli_distribution ::
    "real \<Rightarrow> rng_state \<Rightarrow> error + bool \<times> rng_state" where
  "bernoulli_distribution p r =
     (if 0 \<le> p \<and> p \<le> 1 then
        (case engine_next r of (n, r') \<Rightarrow> Inr (generate_canonical n < p, r'))
      else Inl DistributionPrecondition)"

subsection \<open>Bit selection\<close>

text \<open>A \<^verbatim>\<open>std::bitset<N>\<close> is the list of its \<open>N\<close> bits, position 0 first.\<close>

definition bitset_any :: "bool list \<Rightarrow> bool" where
  "bitset_any msk = list_ex (\<lambda>b. b) msk"

definition bitset_count :: "bool list \<Rightarrow> nat" where
  "bitset_count msk = length (filter (\<lambda>b. b) msk)"

function pick_loop :: "bool list \<Rightarrow> nat \<Rightarrow> nat \<Rightarrow> nat \<Rightarrow> nat option" where
  "pick_loop msk choice i running_ones =
     (if i < length msk then
        (let running_ones' = (if msk ! i then running_ones + 1 else running_ones) in
         if running_ones' = choice then Some i
         else pick_loop msk choice (i + 1) running_ones')
      else None)"
  by pat_completeness auto
termination
  by (relation "measure (\<lambda>(msk, choice, i, running_ones). length msk - i)") auto

declare pick_loop.simps [simp del]

definition pick_nth_set_bit :: "bool list \<Rightarrow> rng_state \<Rightarrow> error + nat \<times> rng_state" where
  "pick_nth_set_bit msk r =
     (if \<not> bitset_any msk then Inl AssertionFailed
      else
        (case uniform_int_distribution 1 (bitset_count msk) r of
           Inl e \<Rightarrow> Inl e
         | Inr (choice, r') \<Rightarrow>
             (case pick_loop msk choice 0 0 of
                Some i \<Rightarrow> Inr (i, r')
              | None \<Rightarrow> Inl Unreachable)))"

subsection \<open>The methods of DefaultGeneratorRng\<close>

definition gen_bin_op :: "bool list \<Rightarrow> rng_state \<Rightarrow> error + BinOp \<times> rng_state" where
  "gen_bin_op msk r = pick_nth_set_bit msk (note_call Call_gen_bin_op r)"

definition gen_un_op :: "bool list \<Rightarrow> rng_state \<Rightarrow> error + UnOp \<times> rng_state" where
  "gen_un_op msk r = pick_nth_set_bit msk (note_call Call_gen_un_op r)"

definition gen_u64 :: "64 word \<Rightarrow> 64 word \<Rightarrow> rng_state \<Rightarrow> error + 64 word \<times> rng_state" where
  "gen_u64 lo hi r =
     (case uniform_int_distribution (unat lo) (unat hi) (note_call Call_gen_u64 r) of
        Inl e \<Rightarrow> Inl e
      | Inr (v, r') \<Rightarrow> Inr (word_of_nat v, r'))"

definition gen_double :: "real \<Rightarrow> real \<Rightarrow> rng_state \<Rightarrow> error + real \<times> rng_state" where
  "gen_double lo hi r = uniform_real_distribution lo hi (note_call Call_gen_double r)"

definition gen_cv_qualifiers ::
    "real \<Rightarrow> real \<Rightarrow> rng_state \<Rightarrow> error + CvQualifiers \<times> rng_state" where
  "gen_cv_qualifiers const_p volatile_p r =
     (case bernoulli_distribution const_p (note_call Call_gen_cv_qualifiers r) of
        Inl e \<Rightarrow> Inl e
      | Inr (c, r1) \<Rightarrow>
          (let retval = (if c then {Const} else {}) in
           case bernoulli_distribution volatile_p r1 of
             Inl e \<Rightarrow> Inl e
           | Inr (v, r2) \<Rightarrow> Inr (if v then retval \<union> {Volatile} else retval, r2)))"

definition gen_parenthesize :: "real \<Rightarrow> rng_state \<Rightarrow> error + bool \<times> rng_state" where
  "gen_parenthesize probability r =
     bernoulli_distribution probability (note_call Call_gen_parenthesize r)"

text \<open>
  The loop of \<^verbatim>\<open>gen_expr_kind\<close> over the indices that remain; it returns the
  dummy \<open>kind\<close> when no index makes \<^verbatim>\<open>val < running_sum\<close> true.
\<close>

fun expr_kind_loop ::
    "(ExprKind \<Rightarrow> real) \<Rightarrow> real \<Rightarrow> ExprKind \<Rightarrow> real \<Rightarrow> ExprKind list \<Rightarrow> ExprKind" where
  "expr_kind_loop ws val kind running_sum [] = kind"
| "expr_kind_loop ws val kind running_sum (i # is) =
     (let running_sum' = running_sum + ws i in
      if val < running_sum' then i
      else expr_kind_loop ws val kind running_sum' is)"

definition gen_expr_kind :: "Weights \<Rightarrow> rng_state \<Rightarrow> error + ExprKind \<times> rng_state" where
  "gen_expr_kind weights r =
     (let sum = foldl (+) 0 (map (expr_weights weights) all_expr_kinds) in
      case uniform_real_distribution 0 sum (note_call Call_gen_expr_kind r) of
        Inl e \<Rightarrow> Inl e
      | Inr (val, r') \<Rightarrow>
          Inr (expr_kind_loop (expr_weights weights) val ExprKind_IntegerConstant 0
                 all_expr_kinds, r'))"

function type_kind_loop :: "real list \<Rightarrow> real \<Rightarrow> TypeKind \<Rightarrow> real \<Rightarrow> nat \<Rightarrow> TypeKind" where
  "type_kind_loop ws val kind running_sum i =
     (if i < length ws then
        (let running_sum' = running_sum + ws ! i in
         if val < running_sum' then TypeKind_of_index i
         else type_kind_loop ws val kind running_sum' (i + 1))
      else kind)"
  by pat_completeness auto
termination
  by (relation "measure (\<lambda>(ws, val, kind, running_sum, i). length ws - i)") auto

declare type_kind_loop.simps [simp del]

definition gen_type_kind :: "Weights \<Rightarrow> rng_state \<Rightarrow> error + TypeKind \<times> rng_state" where
  "gen_type_kind weights r =
     (let sum = foldl (+) 0 (type_weights weights) in
      case uniform_real_distribution 0 sum (note_call Call_gen_type_kind r) of
        Inl e \<Rightarrow> Inl e
      | Inr (val, r') \<Rightarrow> Inr (type_kind_loop (type_weights weights) val ScalarType 0 0, r'))"

subsection \<open>The generator\<close>

text \<open>
  The state of a run: the generator's \<^verbatim>\<open>rng_\<close> and the stack of the
  \<^verbatim>\<open>Weights\<close> objects that are alive (the local \<^verbatim>\<open>weights\<close> of
  \<^verbatim>\<open>generate\<close> and one \<^verbatim>\<open>new_weights\<close> for each call of
  \<^verbatim>\<open>gen_with_weights\<close> that has not returned).
\<close>

record gen_state =
  rng :: rng_state
  frames :: "Weights list"

type_synonym 'a gen_result = "(error + 'a \<times> gen_state) option"

definition bind_gen ::
    "'a gen_result \<Rightarrow> ('a \<Rightarrow> gen_state \<Rightarrow> 'b gen_result) \<Rightarrow> 'b gen_result" where
  "bind_gen m f =
     (case m of
        None \<Rightarrow> None
      | Some (Inl e) \<Rightarrow> Some (Inl e)
      | Some (Inr (a, s)) \<Rightarrow> f a s)"

definition return_gen :: "'a \<Rightarrow> gen_state \<Rightarrow> 'a gen_result" where
  "return_gen a s = Some (Inr (a, s))"

text \<open>A call of a method of \<^verbatim>\<open>rng_\<close>.\<close>

definition draw ::
    "(rng_state \<Rightarrow> error + 'a \<times> rng_state) \<Rightarrow> gen_state \<Rightarrow> 'a gen_result" where
  "draw f s =
     (case f (rng s) of
        Inl e \<Rightarrow> Some (Inl e)
      | Inr (a, r) \<Rightarrow> Some (Inr (a, s\<lparr>rng := r\<rparr>)))"

definition gen_integer_constant :: "GenConfig \<Rightarrow> nat \<Rightarrow> gen_state \<Rightarrow> Expr gen_result" where
  "gen_integer_constant cfg weights s =
     bind_gen (draw (gen_u64 (int_const_min cfg) (int_const_max cfg)) s)
       (\<lambda>v. return_gen (IntegerConstant v))"

definition gen_double_constant :: "GenConfig \<Rightarrow> nat \<Rightarrow> gen_state \<Rightarrow> Expr gen_result" where
  "gen_double_constant cfg weights s =
     bind_gen (draw (gen_double (double_constant_min cfg) (double_constant_max cfg)) s)
       (\<lambda>v. return_gen (DoubleConstant v))"

definition gen_variable_expr :: "header_decls \<Rightarrow> nat \<Rightarrow> gen_state \<Rightarrow> Expr gen_result" where
  "gen_variable_expr D weights s = return_gen (VariableExpr (VAR D)) s"

definition maybe_parenthesized :: "GenConfig \<Rightarrow> Expr \<Rightarrow> gen_state \<Rightarrow> Expr gen_result" where
  "maybe_parenthesized cfg expr s =
     bind_gen (draw (gen_parenthesize (parenthesize_prob cfg)) s)
       (\<lambda>p. return_gen (if p then ParenthesizedExpr expr else expr))"

text \<open>
  \<^verbatim>\<open>new_weights[kind] *= cfg_.expr_kind_weights[idx].dampening_factor\<close>, on the
  \<^verbatim>\<open>Weights\<close> object at the reference \<open>new_weights\<close>.
\<close>

definition dampen :: "GenConfig \<Rightarrow> ExprKind \<Rightarrow> Weights \<Rightarrow> Weights" where
  "dampen cfg kind w =
     w\<lparr>expr_weights := (expr_weights w)
          (kind := expr_weights w kind * dampening_factor (expr_kind_weights cfg kind))\<rparr>"

definition write_frame :: "nat \<Rightarrow> (Weights \<Rightarrow> Weights) \<Rightarrow> gen_state \<Rightarrow> gen_state" where
  "write_frame ref f s = s\<lparr>frames := (frames s)[ref := f (frames s ! ref)]\<rparr>"

definition push_frame :: "Weights \<Rightarrow> gen_state \<Rightarrow> gen_state" where
  "push_frame w s = s\<lparr>frames := frames s @ [w]\<rparr>"

definition pop_frame :: "gen_state \<Rightarrow> gen_state" where
  "pop_frame s = s\<lparr>frames := butlast (frames s)\<rparr>"

text \<open>
  The three mutually recursive methods. The first argument bounds the nesting of
  \<^verbatim>\<open>gen_with_weights\<close> calls; \<open>weights\<close> is the reference the method receives.
  In \<^verbatim>\<open>gen_with_weights\<close> the local \<^verbatim>\<open>new_weights\<close> is pushed on the stack
  as a copy of the object at \<open>weights\<close>, the slot of the drawn kind is dampened in
  place, and the frame is popped when the method returns. The \<^verbatim>\<open>default\<close> branch
  of the \<^verbatim>\<open>switch\<close> has no counterpart: \<open>kind\<close> is always one of the five
  enumerators.
\<close>

function gen_with_weights ::
    "nat \<Rightarrow> header_decls \<Rightarrow> GenConfig \<Rightarrow> nat \<Rightarrow> gen_state \<Rightarrow> Expr gen_result"
  and gen_binary_expr ::
    "nat \<Rightarrow> header_decls \<Rightarrow> GenConfig \<Rightarrow> nat \<Rightarrow> gen_state \<Rightarrow> Expr gen_result"
  and gen_unary_expr ::
    "nat \<Rightarrow> header_decls \<Rightarrow> GenConfig \<Rightarrow> nat \<Rightarrow> gen_state \<Rightarrow> Expr gen_result"
where
  "gen_with_weights 0 D cfg weights s = None"
| "gen_with_weights (Suc n) D cfg weights s =
     (let new_weights = length (frames s);
          s0 = push_frame (frames s ! weights) s
      in
      bind_gen (draw (gen_expr_kind (frames s0 ! new_weights)) s0) (\<lambda>kind s1.
      bind_gen
        (case kind of
           ExprKind_IntegerConstant \<Rightarrow>
             gen_integer_constant cfg new_weights (write_frame new_weights (dampen cfg kind) s1)
         | ExprKind_DoubleConstant \<Rightarrow>
             gen_double_constant cfg new_weights (write_frame new_weights (dampen cfg kind) s1)
         | ExprKind_VariableExpr \<Rightarrow>
             gen_variable_expr D new_weights (write_frame new_weights (dampen cfg kind) s1)
         | ExprKind_BinaryExpr \<Rightarrow>
             gen_binary_expr n D cfg new_weights (write_frame new_weights (dampen cfg kind) s1)
         | ExprKind_UnaryExpr \<Rightarrow>
             gen_unary_expr n D cfg new_weights (write_frame new_weights (dampen cfg kind) s1))
        (\<lambda>expr s2.
      bind_gen (maybe_parenthesized cfg expr s2) (\<lambda>e s3.
      return_gen e (pop_frame s3)))))"
| "gen_binary_expr n D cfg weights s =
     bind_gen (draw (gen_bin_op (bin_op_mask cfg)) s) (\<lambda>op s1.
     bind_gen (gen_with_weights n D cfg weights s1) (\<lambda>lhs s2.
     bind_gen (gen_with_weights n D cfg weights s2) (\<lambda>rhs.
     return_gen
       (BinaryExpr
          (if expr_precedence D lhs > bin_op_precedence D op
           then ParenthesizedExpr lhs else lhs)
          op
          (if expr_precedence D rhs \<ge> bin_op_precedence D op
           then ParenthesizedExpr rhs else rhs)))))"
| "gen_unary_expr n D cfg weights s =
     bind_gen (gen_with_weights n D cfg weights s) (\<lambda>expr s1.
     bind_gen (draw (gen_un_op (un_op_mask cfg)) s1) (\<lambda>op.
     return_gen
       (UnaryExpr op
          (if expr_precedence D expr > UnaryExpr_PRECEDENCE D
           then ParenthesizedExpr expr else expr))))"
  by pat_completeness auto
termination
  by (relation "measure (\<lambda>x. case x of
        Inl (n, _) \<Rightarrow> 2 * n
      | Inr (Inl (n, _)) \<Rightarrow> 2 * n + 1
      | Inr (Inr (n, _)) \<Rightarrow> 2 * n + 1)") auto

declare gen_with_weights.simps [simp del]
declare gen_binary_expr.simps [simp del]
declare gen_unary_expr.simps [simp del]

text \<open>
  \<^verbatim>\<open>generate\<close>: the local \<^verbatim>\<open>weights\<close> is default-constructed, the loop
  copies the initial weight of every expression kind into it.
\<close>

definition initial_weights :: "header_decls \<Rightarrow> GenConfig \<Rightarrow> Weights" where
  "initial_weights D cfg =
     foldl (\<lambda>w i. w\<lparr>expr_weights := (expr_weights w)
                        (i := initial_weight (expr_kind_weights cfg i))\<rparr>)
       (Weights_default D) all_expr_kinds"

definition generate :: "nat \<Rightarrow> header_decls \<Rightarrow> GenConfig \<Rightarrow> gen_state \<Rightarrow> Expr gen_result" where
  "generate n D cfg s =
     (let weights = length (frames s);
          s0 = push_frame (initial_weights D cfg) s
      in
      bind_gen (gen_with_weights n D cfg weights s0) (\<lambda>e s1.
      return_gen e (pop_frame s1)))"

subsection \<open>Notions used to state the properties\<close>

text \<open>
  The positions of the set bits of a mask, in increasing order, and the number of set
  bits among the positions \<open>0, \<dots>, i\<close> (the value of \<^verbatim>\<open>running_ones\<close> after
  the loop of \<^verbatim>\<open>pick_nth_set_bit\<close> has visited position \<open>i\<close>).
\<close>

definition set_positions :: "bool list \<Rightarrow> nat list" where
  "set_positions msk = filter (\<lambda>i. msk ! i) [0..<length msk]"

definition running_ones_at :: "bool list \<Rightarrow> nat \<Rightarrow> nat" where
  "running_ones_at msk i = bitset_count (take (Suc i) msk)"

text \<open>
  \<open>logged cs r\<close> is the random source \<open>r\<close> after the calls \<open>cs\<close>, each of which
  consumed one engine output; \<open>log_calls\<close> lifts it to the state of a run.
  \<open>generator_calls\<close> are the methods the generator calls. \<open>dispatch\<close> is the
  \<^verbatim>\<open>switch\<close> of \<^verbatim>\<open>gen_with_weights\<close> and \<open>dispatch_state\<close> the state in
  which it runs: the engine after the draw of the kind, and the dampened copy on top of
  the stack. \<open>same_generator_fields\<close> relates two configurations that agree on every
  field the generator reads. \<open>same_engine\<close> relates two random sources whose engines
  are in the same state: the same position and the same outputs from there on.
  \<open>outcome\<close> forgets the random source of a result; \<open>tree_of\<close> and \<open>calls_of\<close>
  project a run on its tree and on its call log.
\<close>

definition logged :: "rng_call list \<Rightarrow> rng_state \<Rightarrow> rng_state" where
  "logged cs r = r\<lparr>engine_pos := engine_pos r + length cs, calls_made := calls_made r @ cs\<rparr>"

definition log_calls :: "rng_call list \<Rightarrow> gen_state \<Rightarrow> gen_state" where
  "log_calls cs s = s\<lparr>rng := logged cs (rng s)\<rparr>"

definition generator_calls :: "rng_call set" where
  "generator_calls = {Call_gen_expr_kind, Call_gen_u64, Call_gen_double, Call_gen_bin_op,
     Call_gen_un_op, Call_gen_parenthesize}"

definition dispatch ::
    "nat \<Rightarrow> header_decls \<Rightarrow> GenConfig \<Rightarrow> ExprKind \<Rightarrow> nat \<Rightarrow> gen_state \<Rightarrow> Expr gen_result" where
  "dispatch n D cfg kind new_weights s =
     (case kind of
        ExprKind_IntegerConstant \<Rightarrow> gen_integer_constant cfg new_weights s
      | ExprKind_DoubleConstant \<Rightarrow> gen_double_constant cfg new_weights s
      | ExprKind_VariableExpr \<Rightarrow> gen_variable_expr D new_weights s
      | ExprKind_BinaryExpr \<Rightarrow> gen_binary_expr n D cfg new_weights s
      | ExprKind_UnaryExpr \<Rightarrow> gen_unary_expr n D cfg new_weights s)"

definition dispatch_state :: "GenConfig \<Rightarrow> ExprKind \<Rightarrow> nat \<Rightarrow> rng_state \<Rightarrow> gen_state \<Rightarrow> gen_state" where
  "dispatch_state cfg kind weights r s =
     s\<lparr>rng := r, frames := frames s @ [dampen cfg kind (frames s ! weights)]\<rparr>"

definition same_generator_fields :: "GenConfig \<Rightarrow> GenConfig \<Rightarrow> bool" where
  "same_generator_fields cfg cfg' \<longleftrightarrow>
     int_const_min cfg = int_const_min cfg' \<and> int_const_max cfg = int_const_max cfg' \<and>
     double_constant_min cfg = double_constant_min cfg' \<and>
     double_constant_max cfg = double_constant_max cfg' \<and>
     bin_op_mask cfg = bin_op_mask cfg' \<and> un_op_mask cfg = un_op_mask cfg' \<and>
     parenthesize_prob cfg = parenthesize_prob cfg' \<and>
     expr_kind_weights cfg = expr_kind_weights cfg'"

definition same_engine :: "rng_state \<Rightarrow> rng_state \<Rightarrow> bool" where
  "same_engine r1 r2 \<longleftrightarrow>
     engine_pos r1 = engine_pos r2 \<and>
     (\<forall>i\<ge>engine_pos r1. engine_outputs r1 i = engine_outputs r2 i)"

definition outcome :: "error + 'a \<times> rng_state \<Rightarrow> error + 'a" where
  "outcome x = map_sum (\<lambda>e. e) fst x"

definition tree_of :: "Expr gen_result \<Rightarrow> (error + Expr) option" where
  "tree_of m = map_option (map_sum (\<lambda>e. e) fst) m"

definition calls_of :: "Expr gen_result \<Rightarrow> rng_call list" where
  "calls_of m = (case m of Some (Inr (e, s)) \<Rightarrow> calls_made (rng s) | _ \<Rightarrow> [])"

text \<open>
  The order of draws in a unary expression as the specification words it (operator
  first, operand second), to be compared with \<open>gen_unary_expr\<close>.
\<close>

definition gen_unary_expr_op_first ::
    "nat \<Rightarrow> header_decls \<Rightarrow> GenConfig \<Rightarrow> nat \<Rightarrow> gen_state \<Rightarrow> Expr gen_result" where
  "gen_unary_expr_op_first n D cfg weights s =
     bind_gen (draw (gen_un_op (un_op_mask cfg)) s) (\<lambda>op s1.
     bind_gen (gen_with_weights n D cfg weights s1) (\<lambda>expr.
     return_gen
       (UnaryExpr op
          (if expr_precedence D expr > UnaryExpr_PRECEDENCE D
           then ParenthesizedExpr expr else expr))))"

subsection \<open>Concrete inputs\<close>

text \<open>
  A precedence table in the style of C (multiplicative operators at 5, unary operators
  at 3, atoms at 0), a configuration with integer constants and one binary operator, a
  configuration that only generates the integer constant 0, and engines given by their
  output sequence.
\<close>

definition ex_decls :: header_decls where
  "ex_decls = \<lparr>bin_op_precedence = (\<lambda>op. 5 + int op), UnaryExpr_PRECEDENCE = 3,
     atom_precedence = 0, VAR = ''x'',
     Weights_default = \<lparr>expr_weights = (\<lambda>k. 0), type_weights = []\<rparr>\<rparr>"

definition ex_cfg :: GenConfig where
  "ex_cfg = \<lparr>int_const_min = 0, int_const_max = 9,
     double_constant_min = 0, double_constant_max = 1,
     bin_op_mask = [True], un_op_mask = [True, True],
     parenthesize_prob = 0, const_prob = 0, volatile_prob = 0,
     expr_kind_weights = (\<lambda>k.
        if k = ExprKind_IntegerConstant then \<lparr>initial_weight = 1, dampening_factor = 1\<rparr>
        else if k = ExprKind_BinaryExpr then \<lparr>initial_weight = 1, dampening_factor = 1 / 2\<rparr>
        else \<lparr>initial_weight = 0, dampening_factor = 1 / 2\<rparr>),
     type_kind_weights = []\<rparr>"

definition int_only_cfg :: "real \<Rightarrow> GenConfig" where
  "int_only_cfg p = ex_cfg\<lparr>int_const_max := 0, parenthesize_prob := p,
     expr_kind_weights := (\<lambda>k.
        \<lparr>initial_weight = (if k = ExprKind_IntegerConstant then 1 else 0),
         dampening_factor = 1\<rparr>)\<rparr>"

definition outputs_count :: "nat \<Rightarrow> nat" where
  "outputs_count i = i"

definition outputs_binary_at :: "nat \<Rightarrow> nat \<Rightarrow> nat" where
  "outputs_binary_at k i = (if i = k then 2 ^ 31 else i)"

definition ex_start :: "(nat \<Rightarrow> nat) \<Rightarrow> gen_state" where
  "ex_start outs =
     \<lparr>rng = \<lparr>engine_outputs = outs, engine_pos = 0, calls_made = []\<rparr>, frames = []\<rparr>"

definition ex_start_used :: "(nat \<Rightarrow> nat) \<Rightarrow> gen_state" where
  "ex_start_used outs =
     \<lparr>rng = \<lparr>engine_outputs = outs, engine_pos = 0, calls_made = [Call_gen_double]\<rparr>,
      frames = [Weights_default ex_decls]\<rparr>"

definition ex_state :: "(nat \<Rightarrow> nat) \<Rightarrow> gen_state" where
  "ex_state outs = push_frame (initial_weights ex_decls ex_cfg) (ex_start outs)"

section \<open>Bit selection: pick_nth_set_bit\<close>

lemma bitset_count_upt:
  "bitset_count msk = length (filter (\<lambda>i. msk ! i) [0..<length msk])"
proof -
  have "filter (\<lambda>b. b) (map ((!) msk) [0..<length msk]) =
        map ((!) msk) (filter (\<lambda>i. msk ! i) [0..<length msk])"
    by (simp add: filter_map comp_def)
  then have "length (filter (\<lambda>b. b) (map ((!) msk) [0..<length msk])) =
        length (filter (\<lambda>i. msk ! i) [0..<length msk])"
    by simp
  then show ?thesis
    by (simp add: bitset_count_def map_nth)
qed

lemma bitset_count_set_positions: "bitset_count msk = length (set_positions msk)"
  by (simp add: bitset_count_upt set_positions_def)

lemma running_ones_at_upt:
  assumes "k < length msk"
  shows "running_ones_at msk k = length (filter (\<lambda>i. msk ! i) [0..<Suc k])"
proof -
  have len: "length (take (Suc k) msk) = Suc k"
    using assms by simp
  have "filter (\<lambda>i. take (Suc k) msk ! i) [0..<Suc k] = filter (\<lambda>i. msk ! i) [0..<Suc k]"
    by (rule filter_cong) auto
  then show ?thesis
    unfolding running_ones_at_def bitset_count_upt len by simp
qed

lemma bitset_any_count: "bitset_any msk \<longleftrightarrow> 0 < bitset_count msk"
  by (induction msk) (auto simp: bitset_any_def bitset_count_def)

lemma set_set_positions: "set (set_positions msk) = {i. i < length msk \<and> msk ! i}"
  by (auto simp: set_positions_def)

lemma distinct_set_positions: "distinct (set_positions msk)"
  by (simp add: set_positions_def)

lemma pick_loop_nth:
  assumes "running_ones < choice"
    and "choice - running_ones \<le> length (filter (\<lambda>j. msk ! j) [i..<length msk])"
  shows "pick_loop msk choice i running_ones =
         Some (filter (\<lambda>j. msk ! j) [i..<length msk] ! (choice - running_ones - 1))"
  using assms
proof (induction msk choice i running_ones rule: pick_loop.induct)
  case (1 msk choice i running_ones)
  have i_lt: "i < length msk"
  proof (rule ccontr)
    assume "\<not> i < length msk"
    then have "filter (\<lambda>j. msk ! j) [i..<length msk] = []" by simp
    with "1.prems" show False by simp
  qed
  then have upt: "[i..<length msk] = i # [Suc i..<length msk]"
    by (simp add: upt_conv_Cons)
  show ?case
  proof (cases "msk ! i")
    case True
    show ?thesis
    proof (cases "running_ones + 1 = choice")
      case eq: True
      then show ?thesis
        using True i_lt upt by (subst pick_loop.simps) simp
    next
      case neq: False
      have "pick_loop msk choice (i + 1) (running_ones + 1) =
            Some (filter (\<lambda>j. msk ! j) [i + 1..<length msk] ! (choice - (running_ones + 1) - 1))"
        using "1.IH"[of "running_ones + 1"] True i_lt neq "1.prems" upt by simp
      moreover have "(i # filter (\<lambda>j. msk ! j) [Suc i..<length msk]) ! (choice - running_ones - 1)
          = filter (\<lambda>j. msk ! j) [Suc i..<length msk] ! (choice - (running_ones + 1) - 1)"
        using neq "1.prems"(1) by (cases "choice - running_ones - 1") auto
      ultimately show ?thesis
        using True i_lt neq upt by (subst pick_loop.simps) simp
    qed
  next
    case False
    have "pick_loop msk choice (i + 1) running_ones =
            Some (filter (\<lambda>j. msk ! j) [i + 1..<length msk] ! (choice - running_ones - 1))"
      using "1.IH"[of running_ones] False i_lt "1.prems" upt by simp
    then show ?thesis
      using False i_lt "1.prems"(1) upt by (subst pick_loop.simps) simp
  qed
qed

lemma pick_loop_set_positions:
  assumes "1 \<le> choice" and "choice \<le> bitset_count msk"
  shows "pick_loop msk choice 0 0 = Some (set_positions msk ! (choice - 1))"
  using pick_loop_nth[of 0 choice msk 0] assms
  by (simp add: bitset_count_upt set_positions_def)

lemma pick_loop_first:
  assumes "pick_loop msk choice i running_ones = Some k" and "running_ones < choice"
  shows "i \<le> k \<and> k < length msk \<and> msk ! k \<and>
         running_ones + length (filter (\<lambda>j. msk ! j) [i..<Suc k]) = choice \<and>
         (\<forall>j. i \<le> j \<and> j < k \<longrightarrow>
            running_ones + length (filter (\<lambda>j. msk ! j) [i..<Suc j]) < choice)"
  using assms
proof (induction msk choice i running_ones rule: pick_loop.induct)
  case (1 msk choice i running_ones)
  from "1.prems"(1) have i_lt: "i < length msk"
    by (subst (asm) pick_loop.simps) (simp split: if_splits)
  show ?case
  proof (cases "(if msk ! i then running_ones + 1 else running_ones) = choice")
    case True
    with "1.prems" i_lt have k: "k = i" and bit: "msk ! i"
      by (subst (asm) pick_loop.simps, simp split: if_splits)+
    with True show ?thesis using i_lt by (auto split: if_splits)
  next
    case False
    define r' where "r' = (if msk ! i then running_ones + 1 else running_ones)"
    have rec: "pick_loop msk choice (i + 1) r' = Some k"
      using "1.prems"(1) False i_lt unfolding r'_def
      by (subst (asm) pick_loop.simps) (simp split: if_splits)
    have lt: "r' < choice"
      using False "1.prems"(2) unfolding r'_def by (auto split: if_splits)
    have IH: "i + 1 \<le> k \<and> k < length msk \<and> msk ! k \<and>
         r' + length (filter (\<lambda>j. msk ! j) [i + 1..<Suc k]) = choice \<and>
         (\<forall>j. i + 1 \<le> j \<and> j < k \<longrightarrow>
            r' + length (filter (\<lambda>j. msk ! j) [i + 1..<Suc j]) < choice)"
      using "1.IH"[of r'] i_lt False rec lt unfolding r'_def by (simp del: upt_Suc)
    have split_upt: "\<And>j. i \<le> j \<Longrightarrow>
        running_ones + length (filter (\<lambda>j. msk ! j) [i..<Suc j]) =
        r' + length (filter (\<lambda>j. msk ! j) [i + 1..<Suc j])"
      unfolding r'_def by (simp add: upt_conv_Cons del: upt_Suc)
    show ?thesis
    proof (intro conjI allI impI)
      show "i \<le> k" using IH by simp
      show "k < length msk" using IH by simp
      show "msk ! k" using IH by simp
      show "running_ones + length (filter (\<lambda>j. msk ! j) [i..<Suc k]) = choice"
        using IH split_upt[of k] by (simp del: upt_Suc)
    next
      fix j assume j: "i \<le> j \<and> j < k"
      show "running_ones + length (filter (\<lambda>j. msk ! j) [i..<Suc j]) < choice"
      proof (cases "j = i")
        case True
        then show ?thesis using lt unfolding r'_def by (simp split: if_splits)
      next
        case False
        with j have "i + 1 \<le> j \<and> j < k" by simp
        with IH split_upt[of j] j show ?thesis by (simp del: upt_Suc)
      qed
    qed
  qed
qed

lemma pick_loop_running_ones:
  assumes "pick_loop msk choice 0 0 = Some k" and "0 < choice"
  shows "k < length msk \<and> msk ! k \<and> running_ones_at msk k = choice \<and>
         (\<forall>j<k. running_ones_at msk j < choice)"
proof -
  from pick_loop_first[OF assms]
  have k: "k < length msk" "msk ! k"
    and eq: "length (filter (\<lambda>j. msk ! j) [0..<Suc k]) = choice"
    and lt: "\<And>j. j < k \<Longrightarrow> length (filter (\<lambda>j. msk ! j) [0..<Suc j]) < choice"
    by auto
  show ?thesis
    using k eq lt by (simp add: running_ones_at_upt)
qed

lemma pick_bijection:
  "bij_betw (\<lambda>choice. the (pick_loop msk choice 0 0)) {1..bitset_count msk}
     {i. i < length msk \<and> msk ! i}"
proof -
  let ?sp = "set_positions msk"
  have a: "bij_betw (\<lambda>c. c - 1) {1..length ?sp} {..<length ?sp}"
    by (rule bij_betw_byWitness[where f' = "\<lambda>i. i + 1"]) auto
  have b: "bij_betw ((!) ?sp) {..<length ?sp} (set ?sp)"
    by (rule bij_betw_nth) (simp_all add: distinct_set_positions)
  have c: "bij_betw ((!) ?sp \<circ> (\<lambda>c. c - 1)) {1..length ?sp} (set ?sp)"
    using a b by (rule bij_betw_trans)
  have "bij_betw ((!) ?sp \<circ> (\<lambda>c. c - 1)) {1..length ?sp} (set ?sp) =
        bij_betw (\<lambda>c. the (pick_loop msk c 0 0)) {1..length ?sp} (set ?sp)"
    by (rule bij_betw_cong) (simp add: pick_loop_set_positions bitset_count_set_positions)
  with c have "bij_betw (\<lambda>c. the (pick_loop msk c 0 0)) {1..length ?sp} (set ?sp)"
    by simp
  then show ?thesis
    by (simp add: bitset_count_set_positions set_set_positions)
qed

lemma uniform_int_distribution_range:
  assumes "a \<le> b"
  shows "\<exists>v. uniform_int_distribution a b r = Inr (v, snd (engine_next r)) \<and> a \<le> v \<and> v \<le> b"
proof -
  have "engine_outputs r (engine_pos r) mod (b - a + 1) < b - a + 1"
    by simp
  then have "a + engine_outputs r (engine_pos r) mod (b - a + 1) \<le> b"
    using assms by linarith
  then show ?thesis
    using assms by (simp add: uniform_int_distribution_def engine_next_def)
qed

text \<open>
  Claim C2. For a mask with at least one set bit, \<^verbatim>\<open>pick_nth_set_bit\<close> draws
  \<open>choice\<close> in \<open>[1, popcount]\<close> and returns the position at which the running
  count of set bits first equals \<open>choice\<close>; the bit at this position is set. Every
  draw in \<open>[1, popcount]\<close> yields a position, and the map from draws to positions
  is a bijection onto the set positions of the mask.
\<close>

theorem pick_nth_set_bit_choice:
  assumes "bitset_any msk"
  shows "(\<exists>choice i r'.
            uniform_int_distribution 1 (bitset_count msk) r = Inr (choice, r') \<and>
            1 \<le> choice \<and> choice \<le> bitset_count msk \<and>
            pick_nth_set_bit msk r = Inr (i, r') \<and>
            i < length msk \<and> msk ! i \<and>
            running_ones_at msk i = choice \<and>
            (\<forall>j<i. running_ones_at msk j < choice)) \<and>
         (\<forall>choice\<in>{1..bitset_count msk}. \<exists>i. pick_loop msk choice 0 0 = Some i) \<and>
         bij_betw (\<lambda>choice. the (pick_loop msk choice 0 0))
           {1..bitset_count msk} {i. i < length msk \<and> msk ! i}"
proof (intro conjI)
  from assms have pos: "1 \<le> bitset_count msk"
    by (simp add: bitset_any_count)
  from uniform_int_distribution_range[OF pos, of r]
  obtain choice where draw: "uniform_int_distribution 1 (bitset_count msk) r =
      Inr (choice, snd (engine_next r))"
    and lo: "1 \<le> choice" and hi: "choice \<le> bitset_count msk"
    by blast
  define i where "i = set_positions msk ! (choice - 1)"
  have loop: "pick_loop msk choice 0 0 = Some i"
    unfolding i_def using lo hi by (rule pick_loop_set_positions)
  have res: "pick_nth_set_bit msk r = Inr (i, snd (engine_next r))"
    using assms draw loop by (simp add: pick_nth_set_bit_def)
  from pick_loop_running_ones[OF loop] lo
  have "i < length msk \<and> msk ! i \<and> running_ones_at msk i = choice \<and>
        (\<forall>j<i. running_ones_at msk j < choice)"
    by simp
  with draw lo hi res
  show "\<exists>choice i r'.
            uniform_int_distribution 1 (bitset_count msk) r = Inr (choice, r') \<and>
            1 \<le> choice \<and> choice \<le> bitset_count msk \<and>
            pick_nth_set_bit msk r = Inr (i, r') \<and>
            i < length msk \<and> msk ! i \<and>
            running_ones_at msk i = choice \<and>
            (\<forall>j<i. running_ones_at msk j < choice)"
    by blast
next
  show "\<forall>choice\<in>{1..bitset_count msk}. \<exists>i. pick_loop msk choice 0 0 = Some i"
    by (simp add: pick_loop_set_positions)
next
  show "bij_betw (\<lambda>choice. the (pick_loop msk choice 0 0))
           {1..bitset_count msk} {i. i < length msk \<and> msk ! i}"
    by (rule pick_bijection)
qed

theorem pick_nth_set_bit_choice_witness:
  "bitset_any [True, True, False, True] \<and>
   (\<exists>i r'. pick_nth_set_bit [True, True, False, True]
        \<lparr>engine_outputs = (\<lambda>i. 2), engine_pos = 0, calls_made = []\<rparr> = Inr (i, r') \<and>
      [True, True, False, True] ! i) \<and>
   pick_loop [True, True, False, True] 3 0 0 = Some 3 \<and>
   pick_loop [True, True, False, True] 2 0 0 \<noteq> Some 2"
proof -
  have h: "bitset_any [True, True, False, True]"
    by (simp add: bitset_any_def)
  have l: "pick_loop [True, True, False, True] 3 0 0 = Some 3"
     "pick_loop [True, True, False, True] 2 0 0 \<noteq> Some 2"
    by (simp_all add: pick_loop.simps)
  from pick_nth_set_bit_choice[OF h, of "\<lparr>engine_outputs = (\<lambda>i. 2), engine_pos = 0, calls_made = []\<rparr>"]
  show ?thesis using h l by blast
qed

section \<open>Results of the monadic combinators\<close>

lemma bind_gen_Inr:
  "bind_gen m f = Some (Inr x) \<longleftrightarrow> (\<exists>a s. m = Some (Inr (a, s)) \<and> f a s = Some (Inr x))"
  by (auto simp: bind_gen_def split: option.splits sum.splits)

lemma bind_gen_Some_Inr [simp]: "bind_gen (Some (Inr (a, s))) f = f a s"
  by (simp add: bind_gen_def)

lemma return_gen_Inr: "return_gen a s = Some (Inr x) \<longleftrightarrow> x = (a, s)"
  by (auto simp: return_gen_def)

lemma draw_Inr:
  "draw f s = Some (Inr (a, s')) \<longleftrightarrow> (\<exists>r. f (rng s) = Inr (a, r) \<and> s' = s\<lparr>rng := r\<rparr>)"
  by (auto simp: draw_def split: sum.splits)

lemma maybe_parenthesized_Inr:
  "maybe_parenthesized cfg expr s = Some (Inr (e, s')) \<longleftrightarrow>
     (\<exists>p. draw (gen_parenthesize (parenthesize_prob cfg)) s = Some (Inr (p, s')) \<and>
          e = (if p then ParenthesizedExpr expr else expr))"
  by (auto simp: maybe_parenthesized_def bind_gen_Inr return_gen_Inr)

lemma bind_gen_mono:
  assumes "bind_gen m f = Some r"
    and "\<And>x. m = Some x \<Longrightarrow> m' = Some x"
    and "\<And>a s y. f a s = Some y \<Longrightarrow> g a s = Some y"
  shows "bind_gen m' g = Some r"
proof (cases m)
  case None
  with assms(1) show ?thesis by (simp add: bind_gen_def)
next
  case (Some x)
  with assms(2) have m': "m' = Some x" by simp
  show ?thesis
  proof (cases x)
    case (Inl e)
    with assms(1) Some m' show ?thesis by (simp add: bind_gen_def)
  next
    case (Inr p)
    with assms(1,3) Some m' show ?thesis by (cases p) (simp add: bind_gen_def)
  qed
qed

lemma gen_with_weights_Suc:
  "gen_with_weights (Suc n) D cfg weights s =
     bind_gen (draw (gen_expr_kind (frames s ! weights)) s) (\<lambda>kind s1.
     bind_gen (dispatch n D cfg kind (length (frames s))
                 (dispatch_state cfg kind weights (rng s1) s)) (\<lambda>expr s2.
     bind_gen (maybe_parenthesized cfg expr s2) (\<lambda>e s3.
     return_gen e (pop_frame s3))))"
proof -
  have "\<And>kind r. write_frame (length (frames s)) (dampen cfg kind)
            (push_frame (frames s ! weights) s\<lparr>rng := r\<rparr>) =
          dispatch_state cfg kind weights r s"
    by (simp add: write_frame_def push_frame_def dispatch_state_def)
  then show ?thesis
    by (simp add: gen_with_weights.simps Let_def dispatch_def draw_def bind_gen_def push_frame_def
        split: sum.splits ExprKind.splits)
qed

lemma gen_with_weights_SucE:
  assumes "gen_with_weights (Suc n) D cfg weights s = Some (Inr (e, s'))"
  obtains kind r1 expr s2 p s3 where
    "gen_expr_kind (frames s ! weights) (rng s) = Inr (kind, r1)"
    "dispatch n D cfg kind (length (frames s)) (dispatch_state cfg kind weights r1 s) =
       Some (Inr (expr, s2))"
    "draw (gen_parenthesize (parenthesize_prob cfg)) s2 = Some (Inr (p, s3))"
    "e = (if p then ParenthesizedExpr expr else expr)"
    "s' = pop_frame s3"
  using assms
  unfolding gen_with_weights_Suc bind_gen_Inr return_gen_Inr maybe_parenthesized_Inr draw_Inr
  by auto

lemma gen_binary_exprE:
  assumes "gen_binary_expr n D cfg weights s = Some (Inr (e, s'))"
  obtains op s1 lhs s2 rhs where
    "draw (gen_bin_op (bin_op_mask cfg)) s = Some (Inr (op, s1))"
    "gen_with_weights n D cfg weights s1 = Some (Inr (lhs, s2))"
    "gen_with_weights n D cfg weights s2 = Some (Inr (rhs, s'))"
    "e = BinaryExpr
          (if expr_precedence D lhs > bin_op_precedence D op then ParenthesizedExpr lhs else lhs)
          op
          (if expr_precedence D rhs \<ge> bin_op_precedence D op then ParenthesizedExpr rhs else rhs)"
  using assms unfolding gen_binary_expr.simps bind_gen_Inr return_gen_Inr by auto

lemma gen_unary_exprE:
  assumes "gen_unary_expr n D cfg weights s = Some (Inr (e, s'))"
  obtains expr s1 op where
    "gen_with_weights n D cfg weights s = Some (Inr (expr, s1))"
    "draw (gen_un_op (un_op_mask cfg)) s1 = Some (Inr (op, s'))"
    "e = UnaryExpr op
          (if expr_precedence D expr > UnaryExpr_PRECEDENCE D then ParenthesizedExpr expr else expr)"
  using assms unfolding gen_unary_expr.simps bind_gen_Inr return_gen_Inr by auto

text \<open>The equations that evaluate a run on a concrete input.\<close>

lemmas run_simps =
  gen_with_weights.simps gen_binary_expr.simps gen_unary_expr.simps
  bind_gen_def return_gen_def draw_def push_frame_def pop_frame_def write_frame_def dampen_def
  gen_integer_constant_def gen_double_constant_def gen_variable_expr_def maybe_parenthesized_def
  gen_expr_kind_def gen_bin_op_def gen_un_op_def gen_u64_def gen_double_def gen_parenthesize_def
  pick_nth_set_bit_def pick_loop.simps bitset_any_def bitset_count_def
  uniform_int_distribution_def uniform_real_distribution_def bernoulli_distribution_def
  engine_next_def note_call_def generate_canonical_def all_expr_kinds_def initial_weights_def
  generate_def Let_def

lemmas ex_simps =
  tree_of_def calls_of_def gen_unary_expr_op_first_def ex_decls_def ex_cfg_def int_only_cfg_def
  outputs_count_def outputs_binary_at_def ex_start_def ex_start_used_def ex_state_def

section \<open>Parentheses around the children of an operator\<close>

text \<open>
  Claim C1. Every result of \<^verbatim>\<open>gen_binary_expr\<close> is a \<open>BinaryExpr l op r\<close> where
  \<open>op\<close> is the operator drawn, \<open>l\<close> is the generated left child, wrapped in
  \<open>ParenthesizedExpr\<close> iff its precedence is strictly greater than that of \<open>op\<close>,
  and \<open>r\<close> is the generated right child, wrapped iff its precedence is greater than or
  equal to that of \<open>op\<close>. When parenthesised expressions bind strictly tighter than
  \<open>op\<close> (the precedence table of the absent header, as the specification describes
  it), the precedence of \<open>l\<close> is at most, and that of \<open>r\<close> strictly less than, the
  precedence of \<open>op\<close>.
\<close>

theorem gen_binary_expr_parentheses:
  assumes "gen_binary_expr n D cfg weights s = Some (Inr (e, s'))"
  shows "\<exists>op lhs rhs l r s1 s2.
           draw (gen_bin_op (bin_op_mask cfg)) s = Some (Inr (op, s1)) \<and>
           gen_with_weights n D cfg weights s1 = Some (Inr (lhs, s2)) \<and>
           gen_with_weights n D cfg weights s2 = Some (Inr (rhs, s')) \<and>
           e = BinaryExpr l op r \<and>
           (if bin_op_precedence D op < expr_precedence D lhs
            then l = ParenthesizedExpr lhs else l = lhs) \<and>
           (if bin_op_precedence D op \<le> expr_precedence D rhs
            then r = ParenthesizedExpr rhs else r = rhs) \<and>
           (atom_precedence D < bin_op_precedence D op \<longrightarrow>
              expr_precedence D l \<le> bin_op_precedence D op \<and>
              expr_precedence D r < bin_op_precedence D op)"
proof -
  from assms obtain op s1 lhs s2 rhs where
    op: "draw (gen_bin_op (bin_op_mask cfg)) s = Some (Inr (op, s1))" and
    lhs: "gen_with_weights n D cfg weights s1 = Some (Inr (lhs, s2))" and
    rhs: "gen_with_weights n D cfg weights s2 = Some (Inr (rhs, s'))" and
    e: "e = BinaryExpr
          (if expr_precedence D lhs > bin_op_precedence D op then ParenthesizedExpr lhs else lhs)
          op
          (if expr_precedence D rhs \<ge> bin_op_precedence D op then ParenthesizedExpr rhs else rhs)"
    unfolding gen_binary_expr.simps bind_gen_Inr return_gen_Inr by auto
  show ?thesis
    using op lhs rhs e by (intro exI conjI) (assumption+, auto)
qed

theorem gen_binary_expr_parentheses_witness:
  "\<exists>e s' l op r.
     gen_binary_expr (Suc (Suc 0)) ex_decls ex_cfg 0 (ex_state (outputs_binary_at 4)) =
       Some (Inr (e, s')) \<and>
     e = BinaryExpr (IntegerConstant 2) 0
           (ParenthesizedExpr (BinaryExpr (IntegerConstant 7) 0 (IntegerConstant 0))) \<and>
     e = BinaryExpr l op r \<and>
     atom_precedence ex_decls < bin_op_precedence ex_decls op \<and>
     expr_precedence ex_decls l \<le> bin_op_precedence ex_decls op \<and>
     expr_precedence ex_decls r < bin_op_precedence ex_decls op"
proof -
  have "\<exists>e s'. gen_binary_expr (Suc (Suc 0)) ex_decls ex_cfg 0 (ex_state (outputs_binary_at 4)) =
      Some (Inr (e, s')) \<and>
      e = BinaryExpr (IntegerConstant 2) 0
           (ParenthesizedExpr (BinaryExpr (IntegerConstant 7) 0 (IntegerConstant 0)))"
    by (simp add: ex_simps run_simps mod_Suc)
  then obtain e s' where
    run: "gen_binary_expr (Suc (Suc 0)) ex_decls ex_cfg 0 (ex_state (outputs_binary_at 4)) =
      Some (Inr (e, s'))" and
    e: "e = BinaryExpr (IntegerConstant 2) 0
           (ParenthesizedExpr (BinaryExpr (IntegerConstant 7) 0 (IntegerConstant 0)))"
    by blast
  from gen_binary_expr_parentheses[OF run] obtain op l r where
    lr: "e = BinaryExpr l op r" and
    imp: "atom_precedence ex_decls < bin_op_precedence ex_decls op \<longrightarrow>
              expr_precedence ex_decls l \<le> bin_op_precedence ex_decls op \<and>
              expr_precedence ex_decls r < bin_op_precedence ex_decls op"
    by blast
  have "atom_precedence ex_decls < bin_op_precedence ex_decls op"
    by (simp add: ex_decls_def)
  with run e lr imp show ?thesis by blast
qed

text \<open>
  Claim C9. Every result of \<^verbatim>\<open>gen_unary_expr\<close> is \<open>UnaryExpr op operand\<close> where
  \<open>operand\<close> is the generated expression, wrapped in \<open>ParenthesizedExpr\<close> iff its
  precedence is strictly greater than \<^verbatim>\<open>UnaryExpr::PRECEDENCE\<close>.
\<close>

theorem gen_unary_expr_parentheses:
  assumes "gen_unary_expr n D cfg weights s = Some (Inr (e, s'))"
  shows "\<exists>expr op operand s1.
           gen_with_weights n D cfg weights s = Some (Inr (expr, s1)) \<and>
           draw (gen_un_op (un_op_mask cfg)) s1 = Some (Inr (op, s')) \<and>
           e = UnaryExpr op operand \<and>
           (if UnaryExpr_PRECEDENCE D < expr_precedence D expr
            then operand = ParenthesizedExpr expr else operand = expr)"
proof -
  from assms obtain expr s1 op where
    "gen_with_weights n D cfg weights s = Some (Inr (expr, s1))"
    "draw (gen_un_op (un_op_mask cfg)) s1 = Some (Inr (op, s'))"
    "e = UnaryExpr op
          (if expr_precedence D expr > UnaryExpr_PRECEDENCE D then ParenthesizedExpr expr else expr)"
    unfolding gen_unary_expr.simps bind_gen_Inr return_gen_Inr by auto
  then show ?thesis
    by (intro exI conjI) (assumption+, auto)
qed

theorem gen_unary_expr_parentheses_witness:
  "\<exists>e s' op operand.
     gen_unary_expr (Suc (Suc 0)) ex_decls ex_cfg 0 (ex_state (outputs_binary_at 0)) =
       Some (Inr (e, s')) \<and>
     e = UnaryExpr 1 (ParenthesizedExpr (BinaryExpr (IntegerConstant 3) 0 (IntegerConstant 6))) \<and>
     e = UnaryExpr op operand"
proof -
  have "\<exists>e s'. gen_unary_expr (Suc (Suc 0)) ex_decls ex_cfg 0 (ex_state (outputs_binary_at 0)) =
      Some (Inr (e, s')) \<and>
      e = UnaryExpr 1 (ParenthesizedExpr (BinaryExpr (IntegerConstant 3) 0 (IntegerConstant 6)))"
    by (simp add: ex_simps run_simps mod_Suc)
  then obtain e s' where
    run: "gen_unary_expr (Suc (Suc 0)) ex_decls ex_cfg 0 (ex_state (outputs_binary_at 0)) =
      Some (Inr (e, s'))" and
    e: "e = UnaryExpr 1 (ParenthesizedExpr (BinaryExpr (IntegerConstant 3) 0 (IntegerConstant 6)))"
    by blast
  from gen_unary_expr_parentheses[OF run] obtain op operand where "e = UnaryExpr op operand"
    by blast
  with run e show ?thesis by blast
qed

section \<open>The effect of a run on the state\<close>

text \<open>
  A run that returns leaves the stack of weights as it found it, consumes one engine
  output per call and appends the calls to the log.
\<close>

lemma logged_Nil [simp]: "logged [] r = r"
  by (simp add: logged_def)

lemma logged_logged [simp]: "logged cs2 (logged cs1 r) = logged (cs1 @ cs2) r"
  by (simp add: logged_def add.assoc)

lemma log_calls_Nil [simp]: "log_calls [] s = s"
  by (simp add: log_calls_def)

lemma log_calls_log_calls [simp]: "log_calls cs2 (log_calls cs1 s) = log_calls (cs1 @ cs2) s"
  by (simp add: log_calls_def)

lemma frames_log_calls [simp]: "frames (log_calls cs s) = frames s"
  by (simp add: log_calls_def)

lemma rng_log_calls [simp]: "rng (log_calls cs s) = logged cs (rng s)"
  by (simp add: log_calls_def)

lemma log_calls_frames_update [simp]:
  "log_calls cs (s\<lparr>frames := fs\<rparr>) = (log_calls cs s)\<lparr>frames := fs\<rparr>"
  by (simp add: log_calls_def)

lemma logged_fields [simp]:
  "engine_outputs (logged cs r) = engine_outputs r"
  "engine_pos (logged cs r) = engine_pos r + length cs"
  "calls_made (logged cs r) = calls_made r @ cs"
  by (simp_all add: logged_def)

lemma uniform_int_distribution_effect:
  "uniform_int_distribution a b r = Inr (v, r') \<Longrightarrow> r' = r\<lparr>engine_pos := Suc (engine_pos r)\<rparr>"
  by (auto simp: uniform_int_distribution_def engine_next_def split: if_splits)

lemma uniform_real_distribution_effect:
  "uniform_real_distribution a b r = Inr (v, r') \<Longrightarrow> r' = r\<lparr>engine_pos := Suc (engine_pos r)\<rparr>"
  by (auto simp: uniform_real_distribution_def engine_next_def split: if_splits)

lemma bernoulli_distribution_effect:
  "bernoulli_distribution p r = Inr (v, r') \<Longrightarrow> r' = r\<lparr>engine_pos := Suc (engine_pos r)\<rparr>"
  by (auto simp: bernoulli_distribution_def engine_next_def split: if_splits)

lemma pick_nth_set_bit_effect:
  "pick_nth_set_bit msk r = Inr (i, r') \<Longrightarrow> r' = r\<lparr>engine_pos := Suc (engine_pos r)\<rparr>"
  by (auto simp: pick_nth_set_bit_def split: if_splits sum.splits option.splits
      dest: uniform_int_distribution_effect)

lemma gen_bin_op_effect: "gen_bin_op msk r = Inr (v, r') \<Longrightarrow> r' = logged [Call_gen_bin_op] r"
  by (auto simp: gen_bin_op_def logged_def note_call_def dest!: pick_nth_set_bit_effect)

lemma gen_un_op_effect: "gen_un_op msk r = Inr (v, r') \<Longrightarrow> r' = logged [Call_gen_un_op] r"
  by (auto simp: gen_un_op_def logged_def note_call_def dest!: pick_nth_set_bit_effect)

lemma gen_u64_effect: "gen_u64 lo hi r = Inr (v, r') \<Longrightarrow> r' = logged [Call_gen_u64] r"
  by (auto simp: gen_u64_def logged_def note_call_def split: sum.splits
      dest!: uniform_int_distribution_effect)

lemma gen_double_effect: "gen_double lo hi r = Inr (v, r') \<Longrightarrow> r' = logged [Call_gen_double] r"
  by (auto simp: gen_double_def logged_def note_call_def dest!: uniform_real_distribution_effect)

lemma gen_parenthesize_effect:
  "gen_parenthesize p r = Inr (v, r') \<Longrightarrow> r' = logged [Call_gen_parenthesize] r"
  by (auto simp: gen_parenthesize_def logged_def note_call_def
      dest!: bernoulli_distribution_effect)

lemma gen_expr_kind_effect:
  "gen_expr_kind w r = Inr (v, r') \<Longrightarrow> r' = logged [Call_gen_expr_kind] r"
  by (auto simp: gen_expr_kind_def logged_def note_call_def Let_def split: sum.splits
      dest!: uniform_real_distribution_effect)

lemma draw_effect:
  assumes "draw f s = Some (Inr (a, s'))" and "\<And>r a r'. f r = Inr (a, r') \<Longrightarrow> r' = logged [c] r"
  shows "s' = log_calls [c] s"
  using assms by (auto simp: draw_Inr log_calls_def)

lemma leaf_effects:
  "gen_integer_constant cfg w s = Some (Inr (e, s')) \<Longrightarrow> s' = log_calls [Call_gen_u64] s"
  "gen_double_constant cfg w s = Some (Inr (e, s')) \<Longrightarrow> s' = log_calls [Call_gen_double] s"
  "gen_variable_expr D w s = Some (Inr (e, s')) \<Longrightarrow> s' = log_calls [] s"
  by (auto simp: gen_integer_constant_def gen_double_constant_def gen_variable_expr_def
      bind_gen_Inr return_gen_Inr
      dest: draw_effect[OF _ gen_u64_effect] draw_effect[OF _ gen_double_effect])

lemma pop_dispatch_state:
  "pop_frame (log_calls cs (dispatch_state cfg kind weights r s)) = log_calls cs (s\<lparr>rng := r\<rparr>)"
  by (simp add: pop_frame_def dispatch_state_def log_calls_def)

lemma frames_dispatch_state:
  "frames (dispatch_state cfg kind weights r s) = frames s @ [dampen cfg kind (frames s ! weights)]"
  by (simp add: dispatch_state_def)

lemma dispatch_effect_step:
  assumes IH: "\<And>w s e s'. gen_with_weights n D cfg w s = Some (Inr (e, s')) \<Longrightarrow>
      \<exists>cs. s' = log_calls (Call_gen_expr_kind # cs) s \<and> set cs \<subseteq> generator_calls"
    and run: "dispatch n D cfg kind w s = Some (Inr (e, s'))"
  shows "\<exists>cs. s' = log_calls cs s \<and> set cs \<subseteq> generator_calls"
proof (cases kind)
  case ExprKind_IntegerConstant
  with run have "s' = log_calls [Call_gen_u64] s"
    by (auto simp: dispatch_def dest: leaf_effects(1))
  then show ?thesis by (auto simp: generator_calls_def)
next
  case ExprKind_DoubleConstant
  with run have "s' = log_calls [Call_gen_double] s"
    by (auto simp: dispatch_def dest: leaf_effects(2))
  then show ?thesis by (auto simp: generator_calls_def)
next
  case ExprKind_VariableExpr
  with run have "s' = log_calls [] s"
    by (auto simp: dispatch_def dest: leaf_effects(3))
  then show ?thesis by (intro exI[of _ "[]"]) simp
next
  case ExprKind_BinaryExpr
  with run have "gen_binary_expr n D cfg w s = Some (Inr (e, s'))"
    by (simp add: dispatch_def)
  then obtain op sa lhs sb rhs where
    op: "draw (gen_bin_op (bin_op_mask cfg)) s = Some (Inr (op, sa))" and
    lhs: "gen_with_weights n D cfg w sa = Some (Inr (lhs, sb))" and
    rhs: "gen_with_weights n D cfg w sb = Some (Inr (rhs, s'))"
    by (rule gen_binary_exprE)
  from op have sa: "sa = log_calls [Call_gen_bin_op] s"
    by (rule draw_effect) (rule gen_bin_op_effect)
  from IH[OF lhs] obtain cl where
    sb: "sb = log_calls (Call_gen_expr_kind # cl) sa" and cl: "set cl \<subseteq> generator_calls"
    by blast
  from IH[OF rhs] obtain cr where
    s': "s' = log_calls (Call_gen_expr_kind # cr) sb" and cr: "set cr \<subseteq> generator_calls"
    by blast
  have "s' = log_calls (Call_gen_bin_op # Call_gen_expr_kind # cl @ Call_gen_expr_kind # cr) s"
    unfolding s' sb sa by simp
  moreover have "set (Call_gen_bin_op # Call_gen_expr_kind # cl @ Call_gen_expr_kind # cr)
      \<subseteq> generator_calls"
    using cl cr by (auto simp: generator_calls_def)
  ultimately show ?thesis by blast
next
  case ExprKind_UnaryExpr
  with run have "gen_unary_expr n D cfg w s = Some (Inr (e, s'))"
    by (simp add: dispatch_def)
  then obtain operand sa op where
    operand: "gen_with_weights n D cfg w s = Some (Inr (operand, sa))" and
    op: "draw (gen_un_op (un_op_mask cfg)) sa = Some (Inr (op, s'))"
    by (rule gen_unary_exprE)
  from IH[OF operand] obtain co where
    sa: "sa = log_calls (Call_gen_expr_kind # co) s" and co: "set co \<subseteq> generator_calls"
    by blast
  from op have s': "s' = log_calls [Call_gen_un_op] sa"
    by (rule draw_effect) (rule gen_un_op_effect)
  have "s' = log_calls (Call_gen_expr_kind # co @ [Call_gen_un_op]) s"
    unfolding s' sa by simp
  moreover have "set (Call_gen_expr_kind # co @ [Call_gen_un_op]) \<subseteq> generator_calls"
    using co by (auto simp: generator_calls_def)
  ultimately show ?thesis by blast
qed

lemma gen_with_weights_effect:
  "gen_with_weights n D cfg weights s = Some (Inr (e, s')) \<Longrightarrow>
     \<exists>cs. s' = log_calls (Call_gen_expr_kind # cs) s \<and> set cs \<subseteq> generator_calls"
proof (induction n arbitrary: weights s e s')
  case 0
  then show ?case by (simp add: gen_with_weights.simps)
next
  case (Suc n)
  from Suc.prems obtain kind r1 expr s2 p s3 where
    kind: "gen_expr_kind (frames s ! weights) (rng s) = Inr (kind, r1)" and
    disp: "dispatch n D cfg kind (length (frames s)) (dispatch_state cfg kind weights r1 s) =
       Some (Inr (expr, s2))" and
    par: "draw (gen_parenthesize (parenthesize_prob cfg)) s2 = Some (Inr (p, s3))" and
    s': "s' = pop_frame s3"
    by (rule gen_with_weights_SucE)
  let ?s1 = "dispatch_state cfg kind weights r1 s"
  have r1: "r1 = logged [Call_gen_expr_kind] (rng s)"
    using kind by (rule gen_expr_kind_effect)
  have "\<exists>cs. s2 = log_calls cs ?s1 \<and> set cs \<subseteq> generator_calls"
  proof (rule dispatch_effect_step)
    show "\<And>w s e s'. gen_with_weights n D cfg w s = Some (Inr (e, s')) \<Longrightarrow>
      \<exists>cs. s' = log_calls (Call_gen_expr_kind # cs) s \<and> set cs \<subseteq> generator_calls"
      by (rule Suc.IH)
    show "dispatch n D cfg kind (length (frames s)) ?s1 = Some (Inr (expr, s2))"
      by (rule disp)
  qed
  then obtain cs where s2: "s2 = log_calls cs ?s1" and cs: "set cs \<subseteq> generator_calls"
    by blast
  from par have s3: "s3 = log_calls [Call_gen_parenthesize] s2"
    by (rule draw_effect) (rule gen_parenthesize_effect)
  have "s' = log_calls (cs @ [Call_gen_parenthesize]) (s\<lparr>rng := r1\<rparr>)"
    unfolding s' s3 s2 by (simp add: pop_dispatch_state)
  also have "s\<lparr>rng := r1\<rparr> = log_calls [Call_gen_expr_kind] s"
    by (simp add: r1 log_calls_def)
  finally have "s' = log_calls (Call_gen_expr_kind # cs @ [Call_gen_parenthesize]) s"
    by simp
  moreover have "set (cs @ [Call_gen_parenthesize]) \<subseteq> generator_calls"
    using cs by (auto simp: generator_calls_def)
  ultimately show ?case by blast
qed

lemma dispatch_effect:
  assumes "dispatch n D cfg kind w s = Some (Inr (e, s'))"
  shows "\<exists>cs. s' = log_calls cs s \<and> set cs \<subseteq> generator_calls"
proof (rule dispatch_effect_step)
  show "\<And>w s e s'. gen_with_weights n D cfg w s = Some (Inr (e, s')) \<Longrightarrow>
      \<exists>cs. s' = log_calls (Call_gen_expr_kind # cs) s \<and> set cs \<subseteq> generator_calls"
    by (rule gen_with_weights_effect)
  show "dispatch n D cfg kind w s = Some (Inr (e, s'))"
    by (rule assms)
qed
lemma generate_effect:
  assumes "generate n D cfg s = Some (Inr (e, s'))"
  shows "\<exists>cs. s' = log_calls (Call_gen_expr_kind # cs) s \<and> set cs \<subseteq> generator_calls"
proof -
  from assms obtain s1 where
    run: "gen_with_weights n D cfg (length (frames s)) (push_frame (initial_weights D cfg) s) =
      Some (Inr (e, s1))" and s': "s' = pop_frame s1"
    by (auto simp: generate_def Let_def bind_gen_Inr return_gen_Inr)
  from gen_with_weights_effect[OF run] obtain cs where
    "s1 = log_calls (Call_gen_expr_kind # cs) (push_frame (initial_weights D cfg) s)"
    and cs: "set cs \<subseteq> generator_calls"
    by blast
  then have "s' = log_calls (Call_gen_expr_kind # cs) s"
    unfolding s' by (simp add: pop_frame_def push_frame_def log_calls_def)
  with cs show ?thesis by blast
qed

section \<open>The order of the draws in a unary expression\<close>

text \<open>
  Claim C4. As stated (the operator is drawn before the operand is generated) the claim
  fails: \<^verbatim>\<open>gen_unary_expr\<close> generates the operand first. Amended: when
  \<^verbatim>\<open>gen_unary_expr\<close> returns, the operand was generated first, from the state in
  which the method was entered and from the weights it received, and the operator was
  drawn by \<^verbatim>\<open>gen_un_op\<close> on \<^verbatim>\<open>cfg.un_op_mask\<close> afterwards; in the sequence of
  calls on the random source every call made for the operand precedes the call of
  \<^verbatim>\<open>gen_un_op\<close>, which is the last one and reads the engine output that follows
  those of the operand. The counterexample runs both orders on the same engine: the
  trees differ, and the log of the source's order ends with \<^verbatim>\<open>gen_un_op\<close>.
\<close>

theorem gen_unary_expr_operand_first:
  assumes "gen_unary_expr n D cfg weights s = Some (Inr (e, s'))"
  shows "\<exists>expr s1 op cs.
           gen_with_weights n D cfg weights s = Some (Inr (expr, s1)) \<and>
           draw (gen_un_op (un_op_mask cfg)) s1 = Some (Inr (op, s')) \<and>
           calls_made (rng s1) = calls_made (rng s) @ Call_gen_expr_kind # cs \<and>
           calls_made (rng s') = calls_made (rng s) @ Call_gen_expr_kind # cs @ [Call_gen_un_op] \<and>
           engine_pos (rng s1) = engine_pos (rng s) + Suc (length cs) \<and>
           engine_pos (rng s') = Suc (engine_pos (rng s1))"
proof -
  from assms obtain expr s1 op where
    operand: "gen_with_weights n D cfg weights s = Some (Inr (expr, s1))" and
    op: "draw (gen_un_op (un_op_mask cfg)) s1 = Some (Inr (op, s'))"
    by (rule gen_unary_exprE)
  from gen_with_weights_effect[OF operand] obtain cs where
    s1: "s1 = log_calls (Call_gen_expr_kind # cs) s"
    by blast
  from op have s': "s' = log_calls [Call_gen_un_op] s1"
    by (rule draw_effect) (rule gen_un_op_effect)
  show ?thesis
    using operand op by (intro exI[of _ expr] exI[of _ s1] exI[of _ op] exI[of _ cs]) (simp add: s' s1)
qed

theorem gen_unary_expr_operand_first_witness:
  "\<exists>e s'. gen_unary_expr (Suc 0) ex_decls ex_cfg 0 (ex_state outputs_count) = Some (Inr (e, s')) \<and>
     e = UnaryExpr 1 (IntegerConstant 1) \<and>
     calls_made (rng s') =
       [Call_gen_expr_kind, Call_gen_u64, Call_gen_parenthesize, Call_gen_un_op]"
proof -
  have "\<exists>e s'. gen_unary_expr (Suc 0) ex_decls ex_cfg 0 (ex_state outputs_count) =
      Some (Inr (e, s')) \<and> e = UnaryExpr 1 (IntegerConstant 1)"
    by (simp add: ex_simps run_simps mod_Suc)
  then obtain e s' where
    run: "gen_unary_expr (Suc 0) ex_decls ex_cfg 0 (ex_state outputs_count) = Some (Inr (e, s'))"
    and e: "e = UnaryExpr 1 (IntegerConstant 1)"
    by blast
  from gen_unary_expr_operand_first[OF run] obtain expr s1 op cs where
    operand: "gen_with_weights (Suc 0) ex_decls ex_cfg 0 (ex_state outputs_count) =
       Some (Inr (expr, s1))" and
    c1: "calls_made (rng s1) = calls_made (rng (ex_state outputs_count)) @ Call_gen_expr_kind # cs" and
    c2: "calls_made (rng s') =
       calls_made (rng (ex_state outputs_count)) @ Call_gen_expr_kind # cs @ [Call_gen_un_op]"
    by blast
  from operand have "calls_made (rng s1) = [Call_gen_expr_kind, Call_gen_u64, Call_gen_parenthesize]"
    by (simp add: ex_simps run_simps) auto
  with c1 c2 have "calls_made (rng s') =
       [Call_gen_expr_kind, Call_gen_u64, Call_gen_parenthesize, Call_gen_un_op]"
    by (simp add: ex_simps push_frame_def)
  with run e show ?thesis by blast
qed

theorem gen_unary_expr_op_first_counterexample:
  "tree_of (gen_unary_expr (Suc 0) ex_decls ex_cfg 0 (ex_state outputs_count)) =
     Some (Inr (UnaryExpr 1 (IntegerConstant 1))) \<and>
   tree_of (gen_unary_expr_op_first (Suc 0) ex_decls ex_cfg 0 (ex_state outputs_count)) =
     Some (Inr (UnaryExpr 0 (IntegerConstant 2))) \<and>
   calls_of (gen_unary_expr (Suc 0) ex_decls ex_cfg 0 (ex_state outputs_count)) =
     [Call_gen_expr_kind, Call_gen_u64, Call_gen_parenthesize, Call_gen_un_op]"
  by (simp add: ex_simps run_simps mod_Suc)

section \<open>The weights of a recursive step\<close>

text \<open>
  Claim C5. A call of \<^verbatim>\<open>gen_with_weights\<close> that returns leaves every
  \<^verbatim>\<open>Weights\<close> object of its callers as it was (the stack of frames is the same
  before and after). It works on a copy of the weights it received: the kind is drawn
  from the received values, and the copy handed to the children differs from them
  exactly in the slot of the drawn kind, which is multiplied by the dampening factor of
  that kind; the type weights are those received. For a binary expression the left and
  the right child both start from a stack whose top is this once-dampened copy: what
  the left subtree does to its own copies is gone when the right child starts.
\<close>

theorem gen_with_weights_weight_frames:
  assumes "gen_with_weights (Suc n) D cfg weights s = Some (Inr (e, s'))"
    and "weights < length (frames s)"
  shows "frames s' = frames s \<and>
    (\<exists>kind r1 expr s2.
       gen_expr_kind (frames s ! weights) (rng s) = Inr (kind, r1) \<and>
       dispatch n D cfg kind (length (frames s)) (dispatch_state cfg kind weights r1 s) =
         Some (Inr (expr, s2)) \<and>
       frames (dispatch_state cfg kind weights r1 s) =
         frames s @ [dampen cfg kind (frames s ! weights)] \<and>
       frames s2 = frames s @ [dampen cfg kind (frames s ! weights)] \<and>
       expr_weights (dampen cfg kind (frames s ! weights)) kind =
         expr_weights (frames s ! weights) kind * dampening_factor (expr_kind_weights cfg kind) \<and>
       (\<forall>k. k \<noteq> kind \<longrightarrow>
          expr_weights (dampen cfg kind (frames s ! weights)) k =
          expr_weights (frames s ! weights) k) \<and>
       type_weights (dampen cfg kind (frames s ! weights)) = type_weights (frames s ! weights) \<and>
       (kind = ExprKind_BinaryExpr \<longrightarrow>
          (\<exists>op sa lhs sb rhs.
             draw (gen_bin_op (bin_op_mask cfg)) (dispatch_state cfg kind weights r1 s) =
               Some (Inr (op, sa)) \<and>
             gen_with_weights n D cfg (length (frames s)) sa = Some (Inr (lhs, sb)) \<and>
             gen_with_weights n D cfg (length (frames s)) sb = Some (Inr (rhs, s2)) \<and>
             frames sa = frames s @ [dampen cfg kind (frames s ! weights)] \<and>
             frames sb = frames s @ [dampen cfg kind (frames s ! weights)])))"
proof -
  from assms(1) obtain kind r1 expr s2 p s3 where
    kind: "gen_expr_kind (frames s ! weights) (rng s) = Inr (kind, r1)" and
    disp: "dispatch n D cfg kind (length (frames s)) (dispatch_state cfg kind weights r1 s) =
       Some (Inr (expr, s2))" and
    par: "draw (gen_parenthesize (parenthesize_prob cfg)) s2 = Some (Inr (p, s3))" and
    s': "s' = pop_frame s3"
    by (rule gen_with_weights_SucE)
  let ?s1 = "dispatch_state cfg kind weights r1 s"
  let ?d = "dampen cfg kind (frames s ! weights)"
  from dispatch_effect[OF disp] obtain cs where s2: "s2 = log_calls cs ?s1"
    by blast
  then have f2: "frames s2 = frames s @ [?d]"
    by (simp add: frames_dispatch_state)
  from par have s3: "s3 = log_calls [Call_gen_parenthesize] s2"
    by (rule draw_effect) (rule gen_parenthesize_effect)
  have f': "frames s' = frames s"
    unfolding s' s3 by (simp add: pop_frame_def f2)
  have bin: "kind = ExprKind_BinaryExpr \<longrightarrow>
          (\<exists>op sa lhs sb rhs.
             draw (gen_bin_op (bin_op_mask cfg)) ?s1 = Some (Inr (op, sa)) \<and>
             gen_with_weights n D cfg (length (frames s)) sa = Some (Inr (lhs, sb)) \<and>
             gen_with_weights n D cfg (length (frames s)) sb = Some (Inr (rhs, s2)) \<and>
             frames sa = frames s @ [?d] \<and> frames sb = frames s @ [?d])"
  proof
    assume "kind = ExprKind_BinaryExpr"
    with disp have "gen_binary_expr n D cfg (length (frames s)) ?s1 = Some (Inr (expr, s2))"
      by (simp add: dispatch_def)
    then obtain op sa lhs sb rhs where
      op: "draw (gen_bin_op (bin_op_mask cfg)) ?s1 = Some (Inr (op, sa))" and
      lhs: "gen_with_weights n D cfg (length (frames s)) sa = Some (Inr (lhs, sb))" and
      rhs: "gen_with_weights n D cfg (length (frames s)) sb = Some (Inr (rhs, s2))"
      by (rule gen_binary_exprE)
    from op have sa: "sa = log_calls [Call_gen_bin_op] ?s1"
      by (rule draw_effect) (rule gen_bin_op_effect)
    then have fa: "frames sa = frames s @ [?d]"
      by (simp add: frames_dispatch_state)
    from gen_with_weights_effect[OF lhs] obtain cl where
      "sb = log_calls (Call_gen_expr_kind # cl) sa"
      by blast
    then have fb: "frames sb = frames s @ [?d]"
      by (simp add: fa)
    from op lhs rhs fa fb show "\<exists>op sa lhs sb rhs.
             draw (gen_bin_op (bin_op_mask cfg)) ?s1 = Some (Inr (op, sa)) \<and>
             gen_with_weights n D cfg (length (frames s)) sa = Some (Inr (lhs, sb)) \<and>
             gen_with_weights n D cfg (length (frames s)) sb = Some (Inr (rhs, s2)) \<and>
             frames sa = frames s @ [?d] \<and> frames sb = frames s @ [?d]"
      by blast
  qed
  have slots: "expr_weights ?d kind =
         expr_weights (frames s ! weights) kind * dampening_factor (expr_kind_weights cfg kind)"
    "\<forall>k. k \<noteq> kind \<longrightarrow> expr_weights ?d k = expr_weights (frames s ! weights) k"
    "type_weights ?d = type_weights (frames s ! weights)"
    by (simp_all add: dampen_def)
  from kind disp f2 bin slots frames_dispatch_state[of cfg kind weights r1 s] f'
  show ?thesis by blast
qed

theorem gen_with_weights_weight_frames_witness:
  "0 < length (frames (ex_state (outputs_binary_at 0))) \<and>
   (\<exists>e s'. gen_with_weights (Suc (Suc 0)) ex_decls ex_cfg 0 (ex_state (outputs_binary_at 0)) =
       Some (Inr (e, s')) \<and>
     e = BinaryExpr (IntegerConstant 3) 0 (IntegerConstant 6) \<and>
     frames s' = frames (ex_state (outputs_binary_at 0)))"
proof -
  have len: "0 < length (frames (ex_state (outputs_binary_at 0)))"
    by (simp add: ex_simps push_frame_def)
  have "\<exists>e s'. gen_with_weights (Suc (Suc 0)) ex_decls ex_cfg 0 (ex_state (outputs_binary_at 0)) =
      Some (Inr (e, s')) \<and> e = BinaryExpr (IntegerConstant 3) 0 (IntegerConstant 6)"
    by (simp add: ex_simps run_simps mod_Suc)
  then obtain e s' where
    run: "gen_with_weights (Suc (Suc 0)) ex_decls ex_cfg 0 (ex_state (outputs_binary_at 0)) =
      Some (Inr (e, s'))" and
    e: "e = BinaryExpr (IntegerConstant 3) 0 (IntegerConstant 6)"
    by blast
  from gen_with_weights_weight_frames[OF run len]
  have "frames s' = frames (ex_state (outputs_binary_at 0))"
    by blast
  with len run e show ?thesis by blast
qed

section \<open>Degenerate selection domains\<close>

lemma generate_canonical_bounds: "0 \<le> generate_canonical n" "generate_canonical n < 1"
  by (simp_all add: generate_canonical_def)

text \<open>
  Claim C3. The claim holds for \<^verbatim>\<open>pick_nth_set_bit\<close> (a mask without a set bit fails
  the assertion) and fails for \<^verbatim>\<open>gen_expr_kind\<close>: on weights that are all zero
  the method does not fail, it draws from the engine and returns the dummy
  \<open>ExprKind_IntegerConstant\<close> with which \<open>kind\<close> was initialised, although the
  comment in the source says that the loop always sets \<open>kind\<close>.
\<close>

theorem gen_expr_kind_zero_sum:
  "gen_expr_kind \<lparr>expr_weights = (\<lambda>k. 0), type_weights = tw\<rparr> r =
     Inr (ExprKind_IntegerConstant, logged [Call_gen_expr_kind] r) \<and>
   pick_nth_set_bit (replicate n False) r = Inl AssertionFailed"
  by (simp add: gen_expr_kind_def all_expr_kinds_def uniform_real_distribution_def
      engine_next_def note_call_def logged_def pick_nth_set_bit_def bitset_any_def list_ex_iff)

section \<open>A configuration that only generates the integer constant 0\<close>

lemma expr_weights_initial_weights:
  "expr_weights (initial_weights D cfg) k = initial_weight (expr_kind_weights cfg k)"
  by (cases k) (simp_all add: initial_weights_def all_expr_kinds_def)

lemma type_weights_initial_weights:
  "type_weights (initial_weights D cfg) = type_weights (Weights_default D)"
  by (simp add: initial_weights_def all_expr_kinds_def)

lemma gen_expr_kind_integer_only:
  assumes "\<forall>k. expr_weights w k = (if k = ExprKind_IntegerConstant then 1 else 0)"
  shows "gen_expr_kind w r = Inr (ExprKind_IntegerConstant, logged [Call_gen_expr_kind] r)"
  using assms generate_canonical_bounds(2)[of "engine_outputs r (engine_pos r)"]
  by (simp add: gen_expr_kind_def all_expr_kinds_def uniform_real_distribution_def
      engine_next_def note_call_def logged_def)

lemma gen_u64_zero: "gen_u64 0 0 r = Inr (0, logged [Call_gen_u64] r)"
  by (simp add: gen_u64_def uniform_int_distribution_def engine_next_def note_call_def logged_def)

lemma gen_parenthesize_value:
  assumes "0 \<le> p" and "p \<le> 1"
  shows "gen_parenthesize p r =
     Inr (generate_canonical (engine_outputs r (engine_pos r)) < p,
          logged [Call_gen_parenthesize] r)"
  using assms
  by (simp add: gen_parenthesize_def bernoulli_distribution_def engine_next_def note_call_def
      logged_def)

text \<open>
  Claim C6. As stated the claim fails: \<^verbatim>\<open>maybe_parenthesized\<close> also runs at the root,
  so with \<open>parenthesize_prob = 1\<close> the result is \<open>ParenthesizedExpr (IntegerConstant 0)\<close>.
  Amended: for \<open>int_const_min = int_const_max = 0\<close>, initial weight 1 for
  \<open>IntegerConstant\<close> and 0 for every other kind, \<open>parenthesize_prob\<close> in \<open>[0, 1]\<close>,
  every engine and every bound \<open>Suc n\<close>, \<^verbatim>\<open>generate\<close> returns after three calls on
  the random source, and the tree is \<open>IntegerConstant 0\<close>, wrapped in one
  \<open>ParenthesizedExpr\<close> exactly when the draw of \<^verbatim>\<open>gen_parenthesize\<close> at the root
  succeeds; with \<open>parenthesize_prob = 0\<close> the tree is \<open>IntegerConstant 0\<close> on every
  run.
\<close>

theorem generate_integer_constant_only:
  assumes "int_const_min cfg = 0" and "int_const_max cfg = 0"
    and "\<forall>k. initial_weight (expr_kind_weights cfg k) =
           (if k = ExprKind_IntegerConstant then 1 else 0)"
    and "0 \<le> parenthesize_prob cfg" and "parenthesize_prob cfg \<le> 1"
  shows "\<exists>p. generate (Suc n) D cfg s =
           Some (Inr (if p then ParenthesizedExpr (IntegerConstant 0) else IntegerConstant 0,
                      log_calls [Call_gen_expr_kind, Call_gen_u64, Call_gen_parenthesize] s)) \<and>
         (p \<longleftrightarrow> generate_canonical (engine_outputs (rng s) (engine_pos (rng s) + 2))
                  < parenthesize_prob cfg) \<and>
         (parenthesize_prob cfg = 0 \<longrightarrow> \<not> p)"
proof -
  let ?w = "initial_weights D cfg"
  have w: "\<forall>k. expr_weights ?w k = (if k = ExprKind_IntegerConstant then 1 else 0)"
    using assms(3) by (simp add: expr_weights_initial_weights)
  let ?p = "generate_canonical (engine_outputs (rng s) (engine_pos (rng s) + 2))
              < parenthesize_prob cfg"
  have "generate (Suc n) D cfg s =
           Some (Inr (if ?p then ParenthesizedExpr (IntegerConstant 0) else IntegerConstant 0,
                      log_calls [Call_gen_expr_kind, Call_gen_u64, Call_gen_parenthesize] s))"
    using assms(1,2)
    by (simp add: generate_def gen_with_weights_Suc push_frame_def draw_def bind_gen_def
        gen_expr_kind_integer_only[OF w] dispatch_def dispatch_state_def
        gen_integer_constant_def gen_u64_zero return_gen_def maybe_parenthesized_def
        gen_parenthesize_value[OF assms(4,5)] pop_frame_def log_calls_def logged_def)
  moreover have "parenthesize_prob cfg = 0 \<longrightarrow> \<not> ?p"
    using generate_canonical_bounds(1) by (auto simp: not_less)
  ultimately show ?thesis by blast
qed

theorem generate_integer_constant_only_witness:
  "int_const_min (int_only_cfg 0) = 0 \<and> int_const_max (int_only_cfg 0) = 0 \<and>
   parenthesize_prob (int_only_cfg 0) = 0 \<and>
   tree_of (generate (Suc 0) ex_decls (int_only_cfg 0) (ex_start outputs_count)) =
     Some (Inr (IntegerConstant 0))"
proof -
  have h: "int_const_min (int_only_cfg 0) = 0" "int_const_max (int_only_cfg 0) = 0"
    "\<forall>k. initial_weight (expr_kind_weights (int_only_cfg 0) k) =
           (if k = ExprKind_IntegerConstant then 1 else 0)"
    "0 \<le> parenthesize_prob (int_only_cfg 0)" "parenthesize_prob (int_only_cfg 0) \<le> 1"
    and p: "parenthesize_prob (int_only_cfg 0) = 0"
    by (simp_all add: ex_simps)
  from generate_integer_constant_only[OF h, of 0 ex_decls "ex_start outputs_count"] p
  have "tree_of (generate (Suc 0) ex_decls (int_only_cfg 0) (ex_start outputs_count)) =
     Some (Inr (IntegerConstant 0))"
    by (auto simp: tree_of_def)
  with h p show ?thesis by simp
qed

theorem generate_integer_constant_counterexample:
  "tree_of (generate (Suc 0) ex_decls (int_only_cfg 1) (ex_start outputs_count)) =
     Some (Inr (ParenthesizedExpr (IntegerConstant 0))) \<and>
   int_const_min (int_only_cfg 1) = 0 \<and> int_const_max (int_only_cfg 1) = 0 \<and>
   map (\<lambda>k. initial_weight (expr_kind_weights (int_only_cfg 1) k)) all_expr_kinds =
     [1, 0, 0, 0, 0]"
  by (simp add: ex_simps run_simps)

section \<open>Configuration fields the generator does not read\<close>

lemma same_generator_fields_leaves:
  assumes "same_generator_fields cfg cfg'"
  shows "gen_integer_constant cfg = gen_integer_constant cfg'"
    and "gen_double_constant cfg = gen_double_constant cfg'"
    and "maybe_parenthesized cfg = maybe_parenthesized cfg'"
    and "dampen cfg = dampen cfg'"
    and "initial_weights D cfg = initial_weights D cfg'"
  using assms
  by (simp_all add: same_generator_fields_def fun_eq_iff gen_integer_constant_def
      gen_double_constant_def maybe_parenthesized_def dampen_def initial_weights_def)

lemma gen_with_weights_same_fields:
  assumes "same_generator_fields cfg cfg'"
  shows "gen_with_weights n D cfg weights s = gen_with_weights n D cfg' weights s"
proof (induction n arbitrary: weights s)
  case 0
  show ?case by (simp add: gen_with_weights.simps)
next
  case (Suc n)
  have bin: "\<And>w s. gen_binary_expr n D cfg w s = gen_binary_expr n D cfg' w s"
    using assms by (simp add: gen_binary_expr.simps Suc.IH same_generator_fields_def)
  have un: "\<And>w s. gen_unary_expr n D cfg w s = gen_unary_expr n D cfg' w s"
    using assms by (simp add: gen_unary_expr.simps Suc.IH same_generator_fields_def)
  have disp: "\<And>kind w s. dispatch n D cfg kind w s = dispatch n D cfg' kind w s"
    by (simp add: dispatch_def bin un same_generator_fields_leaves[OF assms]
        split: ExprKind.splits)
  have st: "\<And>kind w r s. dispatch_state cfg kind w r s = dispatch_state cfg' kind w r s"
    by (simp add: dispatch_state_def same_generator_fields_leaves[OF assms])
  show ?case
    by (simp add: gen_with_weights_Suc disp st same_generator_fields_leaves[OF assms])
qed

lemma generate_same_fields:
  assumes "same_generator_fields cfg cfg'"
  shows "generate n D cfg s = generate n D cfg' s"
  by (simp add: generate_def gen_with_weights_same_fields[OF assms]
      same_generator_fields_leaves[OF assms])

text \<open>
  Claim C10. \<^verbatim>\<open>generate\<close> gives the same result when the type-kind weights,
  \<open>const_prob\<close> and \<open>volatile_prob\<close> of the configuration are replaced by any other
  values; the initial weights take only their expression-kind slots from the
  configuration (the type weights stay those of a default-constructed \<^verbatim>\<open>Weights\<close>);
  and a run that returns has called neither \<^verbatim>\<open>gen_type_kind\<close> nor
  \<^verbatim>\<open>gen_cv_qualifiers\<close>.
\<close>

theorem generate_ignores_type_fields:
  "generate n D (cfg\<lparr>type_kind_weights := tw, const_prob := cp, volatile_prob := vp\<rparr>) s =
     generate n D cfg s \<and>
   initial_weights D (cfg\<lparr>type_kind_weights := tw, const_prob := cp, volatile_prob := vp\<rparr>) =
     initial_weights D cfg \<and>
   type_weights (initial_weights D cfg) = type_weights (Weights_default D) \<and>
   (\<forall>e s'. generate n D cfg s = Some (Inr (e, s')) \<longrightarrow>
      (\<exists>cs. calls_made (rng s') = calls_made (rng s) @ cs \<and>
            Call_gen_type_kind \<notin> set cs \<and> Call_gen_cv_qualifiers \<notin> set cs))"
proof (intro conjI allI impI)
  have same: "same_generator_fields
      (cfg\<lparr>type_kind_weights := tw, const_prob := cp, volatile_prob := vp\<rparr>) cfg"
    by (simp add: same_generator_fields_def)
  show "generate n D (cfg\<lparr>type_kind_weights := tw, const_prob := cp, volatile_prob := vp\<rparr>) s =
     generate n D cfg s"
    using same by (rule generate_same_fields)
  show "initial_weights D (cfg\<lparr>type_kind_weights := tw, const_prob := cp, volatile_prob := vp\<rparr>) =
     initial_weights D cfg"
    using same by (rule same_generator_fields_leaves)
  show "type_weights (initial_weights D cfg) = type_weights (Weights_default D)"
    by (rule type_weights_initial_weights)
next
  fix e s'
  assume "generate n D cfg s = Some (Inr (e, s'))"
  from generate_effect[OF this] obtain cs where
    s': "s' = log_calls (Call_gen_expr_kind # cs) s" and cs: "set cs \<subseteq> generator_calls"
    by blast
  have "calls_made (rng s') = calls_made (rng s) @ Call_gen_expr_kind # cs"
    unfolding s' by simp
  moreover have "Call_gen_type_kind \<notin> set (Call_gen_expr_kind # cs)"
    "Call_gen_cv_qualifiers \<notin> set (Call_gen_expr_kind # cs)"
    using cs by (auto simp: generator_calls_def)
  ultimately show "\<exists>cs. calls_made (rng s') = calls_made (rng s) @ cs \<and>
            Call_gen_type_kind \<notin> set cs \<and> Call_gen_cv_qualifiers \<notin> set cs"
    by blast
qed

theorem generate_ignores_type_fields_witness:
  "\<exists>e s'. generate (Suc (Suc 0)) ex_decls ex_cfg (ex_start (outputs_binary_at 0)) =
       Some (Inr (e, s')) \<and>
     generate (Suc (Suc 0)) ex_decls
       (ex_cfg\<lparr>type_kind_weights := [\<lparr>initial_weight = 1, dampening_factor = 1\<rparr>],
               const_prob := 1 / 2, volatile_prob := 1\<rparr>)
       (ex_start (outputs_binary_at 0)) = Some (Inr (e, s')) \<and>
     e = BinaryExpr (IntegerConstant 3) 0 (IntegerConstant 6) \<and>
     Call_gen_type_kind \<notin> set (calls_made (rng s')) \<and>
     Call_gen_cv_qualifiers \<notin> set (calls_made (rng s'))"
proof -
  let ?s = "ex_start (outputs_binary_at 0)"
  have "\<exists>e s'. generate (Suc (Suc 0)) ex_decls ex_cfg ?s =
      Some (Inr (e, s')) \<and> e = BinaryExpr (IntegerConstant 3) 0 (IntegerConstant 6)"
    by (simp add: ex_simps run_simps mod_Suc)
  then obtain e s' where
    run: "generate (Suc (Suc 0)) ex_decls ex_cfg ?s = Some (Inr (e, s'))" and
    e: "e = BinaryExpr (IntegerConstant 3) 0 (IntegerConstant 6)"
    by blast
  note inst = generate_ignores_type_fields[where n = "Suc (Suc 0)" and D = ex_decls
      and cfg = ex_cfg and tw = "[\<lparr>initial_weight = 1, dampening_factor = 1\<rparr>]"
      and cp = "1 / 2" and vp = 1 and s = ?s]
  from inst run have same: "generate (Suc (Suc 0)) ex_decls
       (ex_cfg\<lparr>type_kind_weights := [\<lparr>initial_weight = 1, dampening_factor = 1\<rparr>],
               const_prob := 1 / 2, volatile_prob := 1\<rparr>) ?s = Some (Inr (e, s'))"
    by simp
  from inst run obtain cs where
    "calls_made (rng s') = calls_made (rng ?s) @ cs"
    "Call_gen_type_kind \<notin> set cs" "Call_gen_cv_qualifiers \<notin> set cs"
    by blast
  then have "Call_gen_type_kind \<notin> set (calls_made (rng s'))"
    "Call_gen_cv_qualifiers \<notin> set (calls_made (rng s'))"
    by (simp_all add: ex_start_def)
  with run same e show ?thesis by blast
qed

section \<open>Determinism\<close>

text \<open>
  The value a method of the random source returns depends on the state of the engine
  only; a run started on an engine in the same state makes the same calls and builds the
  same tree, whatever the call log and the stack of weights were at the start. A larger
  bound on the nesting does not change a result.
\<close>

lemma same_engine_logged: "same_engine r1 r2 \<Longrightarrow> same_engine (logged cs r1) (logged cs r2)"
  by (simp add: same_engine_def)

lemma same_engine_note: "same_engine r1 r2 \<Longrightarrow> same_engine (note_call c r1) (note_call c r2)"
  by (simp add: same_engine_def note_call_def)

lemma uniform_int_distribution_outcome:
  "same_engine r1 r2 \<Longrightarrow>
     outcome (uniform_int_distribution a b r1) = outcome (uniform_int_distribution a b r2)"
  by (simp add: outcome_def uniform_int_distribution_def engine_next_def same_engine_def)

lemma uniform_real_distribution_outcome:
  "same_engine r1 r2 \<Longrightarrow>
     outcome (uniform_real_distribution a b r1) = outcome (uniform_real_distribution a b r2)"
  by (simp add: outcome_def uniform_real_distribution_def engine_next_def same_engine_def)

lemma bernoulli_distribution_outcome:
  "same_engine r1 r2 \<Longrightarrow>
     outcome (bernoulli_distribution p r1) = outcome (bernoulli_distribution p r2)"
  by (simp add: outcome_def bernoulli_distribution_def engine_next_def same_engine_def)

lemma pick_nth_set_bit_outcome:
  assumes "same_engine r1 r2"
  shows "outcome (pick_nth_set_bit msk r1) = outcome (pick_nth_set_bit msk r2)"
proof (cases "bitset_any msk")
  case False
  then show ?thesis by (simp add: pick_nth_set_bit_def outcome_def)
next
  case True
  have "outcome (uniform_int_distribution 1 (bitset_count msk) r1) =
        outcome (uniform_int_distribution 1 (bitset_count msk) r2)"
    using assms by (rule uniform_int_distribution_outcome)
  then show ?thesis
    using True
    by (cases "uniform_int_distribution 1 (bitset_count msk) r1";
        cases "uniform_int_distribution 1 (bitset_count msk) r2")
       (auto simp: pick_nth_set_bit_def outcome_def split: option.splits)
qed

lemma gen_bin_op_outcome:
  "same_engine r1 r2 \<Longrightarrow> outcome (gen_bin_op msk r1) = outcome (gen_bin_op msk r2)"
  unfolding gen_bin_op_def by (intro pick_nth_set_bit_outcome same_engine_note)

lemma gen_un_op_outcome:
  "same_engine r1 r2 \<Longrightarrow> outcome (gen_un_op msk r1) = outcome (gen_un_op msk r2)"
  unfolding gen_un_op_def by (intro pick_nth_set_bit_outcome same_engine_note)

lemma gen_double_outcome:
  "same_engine r1 r2 \<Longrightarrow> outcome (gen_double lo hi r1) = outcome (gen_double lo hi r2)"
  unfolding gen_double_def by (intro uniform_real_distribution_outcome same_engine_note)

lemma gen_parenthesize_outcome:
  "same_engine r1 r2 \<Longrightarrow> outcome (gen_parenthesize p r1) = outcome (gen_parenthesize p r2)"
  unfolding gen_parenthesize_def by (intro bernoulli_distribution_outcome same_engine_note)

lemma gen_u64_outcome:
  assumes "same_engine r1 r2"
  shows "outcome (gen_u64 lo hi r1) = outcome (gen_u64 lo hi r2)"
proof -
  have "outcome (uniform_int_distribution (unat lo) (unat hi) (note_call Call_gen_u64 r1)) =
        outcome (uniform_int_distribution (unat lo) (unat hi) (note_call Call_gen_u64 r2))"
    using assms by (intro uniform_int_distribution_outcome same_engine_note)
  then show ?thesis
    by (cases "uniform_int_distribution (unat lo) (unat hi) (note_call Call_gen_u64 r1)";
        cases "uniform_int_distribution (unat lo) (unat hi) (note_call Call_gen_u64 r2)")
       (auto simp: gen_u64_def outcome_def)
qed

lemma gen_expr_kind_outcome:
  assumes "same_engine r1 r2"
  shows "outcome (gen_expr_kind w r1) = outcome (gen_expr_kind w r2)"
proof -
  let ?sum = "foldl (+) 0 (map (expr_weights w) all_expr_kinds)"
  have "outcome (uniform_real_distribution 0 ?sum (note_call Call_gen_expr_kind r1)) =
        outcome (uniform_real_distribution 0 ?sum (note_call Call_gen_expr_kind r2))"
    using assms by (intro uniform_real_distribution_outcome same_engine_note)
  then show ?thesis
    by (cases "uniform_real_distribution 0 ?sum (note_call Call_gen_expr_kind r1)";
        cases "uniform_real_distribution 0 ?sum (note_call Call_gen_expr_kind r2)")
       (auto simp: gen_expr_kind_def outcome_def Let_def)
qed

lemma draw_transfer:
  assumes "draw f s1 = Some (Inr (a, s1'))"
    and "same_engine (rng s1) (rng s2)"
    and det: "\<And>r1 r2. same_engine r1 r2 \<Longrightarrow> outcome (f r1) = outcome (f r2)"
    and eff: "\<And>r a r'. f r = Inr (a, r') \<Longrightarrow> r' = logged [c] r"
  shows "s1' = log_calls [c] s1 \<and> draw f s2 = Some (Inr (a, log_calls [c] s2))"
proof -
  from assms(1) obtain r1' where f1: "f (rng s1) = Inr (a, r1')" and s1': "s1' = s1\<lparr>rng := r1'\<rparr>"
    by (auto simp: draw_Inr)
  from det[OF assms(2)] f1 obtain r2' where f2: "f (rng s2) = Inr (a, r2')"
    by (cases "f (rng s2)") (auto simp: outcome_def)
  from eff[OF f1] eff[OF f2] s1' f2 show ?thesis
    by (simp add: draw_def log_calls_def)
qed

lemma leaf_transfers:
  assumes "same_engine (rng s1) (rng s2)"
  shows "gen_integer_constant cfg w1 s1 = Some (Inr (e, s1')) \<Longrightarrow>
           gen_integer_constant cfg w2 s2 = Some (Inr (e, log_calls [Call_gen_u64] s2))"
    and "gen_double_constant cfg w1 s1 = Some (Inr (e, s1')) \<Longrightarrow>
           gen_double_constant cfg w2 s2 = Some (Inr (e, log_calls [Call_gen_double] s2))"
    and "gen_variable_expr D w1 s1 = Some (Inr (e, s1')) \<Longrightarrow>
           gen_variable_expr D w2 s2 = Some (Inr (e, log_calls [] s2))"
    and "maybe_parenthesized cfg x s1 = Some (Inr (e, s1')) \<Longrightarrow>
           maybe_parenthesized cfg x s2 = Some (Inr (e, log_calls [Call_gen_parenthesize] s2))"
proof -
  show "gen_integer_constant cfg w1 s1 = Some (Inr (e, s1')) \<Longrightarrow>
           gen_integer_constant cfg w2 s2 = Some (Inr (e, log_calls [Call_gen_u64] s2))"
    unfolding gen_integer_constant_def bind_gen_Inr return_gen_Inr
    using draw_transfer[OF _ assms gen_u64_outcome gen_u64_effect]
    by (fastforce simp: return_gen_def)
  show "gen_double_constant cfg w1 s1 = Some (Inr (e, s1')) \<Longrightarrow>
           gen_double_constant cfg w2 s2 = Some (Inr (e, log_calls [Call_gen_double] s2))"
    unfolding gen_double_constant_def bind_gen_Inr return_gen_Inr
    using draw_transfer[OF _ assms gen_double_outcome gen_double_effect]
    by (fastforce simp: return_gen_def)
  show "gen_variable_expr D w1 s1 = Some (Inr (e, s1')) \<Longrightarrow>
           gen_variable_expr D w2 s2 = Some (Inr (e, log_calls [] s2))"
    by (simp add: gen_variable_expr_def return_gen_def)
  show "maybe_parenthesized cfg x s1 = Some (Inr (e, s1')) \<Longrightarrow>
           maybe_parenthesized cfg x s2 = Some (Inr (e, log_calls [Call_gen_parenthesize] s2))"
    unfolding maybe_parenthesized_def bind_gen_Inr return_gen_Inr
    using draw_transfer[OF _ assms gen_parenthesize_outcome gen_parenthesize_effect]
    by (fastforce simp: return_gen_def)
qed

lemma dispatch_transfer_step:
  assumes IH: "\<And>w1 s1 w2 s2 e s1'.
      gen_with_weights n D cfg w1 s1 = Some (Inr (e, s1')) \<Longrightarrow>
      frames s1 ! w1 = frames s2 ! w2 \<Longrightarrow> same_engine (rng s1) (rng s2) \<Longrightarrow>
      \<exists>cs. s1' = log_calls cs s1 \<and>
           gen_with_weights n D cfg w2 s2 = Some (Inr (e, log_calls cs s2))"
    and run: "dispatch n D cfg kind w1 s1 = Some (Inr (e, s1'))"
    and fr: "frames s1 ! w1 = frames s2 ! w2"
    and eng: "same_engine (rng s1) (rng s2)"
  shows "\<exists>cs. s1' = log_calls cs s1 \<and>
           dispatch n D cfg kind w2 s2 = Some (Inr (e, log_calls cs s2))"
proof (cases kind)
  case ExprKind_IntegerConstant
  with run have r: "gen_integer_constant cfg w1 s1 = Some (Inr (e, s1'))"
    by (simp add: dispatch_def)
  from leaf_effects(1)[OF r] leaf_transfers(1)[OF eng r] ExprKind_IntegerConstant
  show ?thesis by (auto simp: dispatch_def)
next
  case ExprKind_DoubleConstant
  with run have r: "gen_double_constant cfg w1 s1 = Some (Inr (e, s1'))"
    by (simp add: dispatch_def)
  from leaf_effects(2)[OF r] leaf_transfers(2)[OF eng r] ExprKind_DoubleConstant
  show ?thesis by (auto simp: dispatch_def)
next
  case ExprKind_VariableExpr
  with run have r: "gen_variable_expr D w1 s1 = Some (Inr (e, s1'))"
    by (simp add: dispatch_def)
  from leaf_effects(3)[OF r] leaf_transfers(3)[OF eng r] ExprKind_VariableExpr
  show ?thesis by (intro exI[of _ "[]"]) (simp add: dispatch_def)
next
  case ExprKind_BinaryExpr
  with run have "gen_binary_expr n D cfg w1 s1 = Some (Inr (e, s1'))"
    by (simp add: dispatch_def)
  then obtain op sa lhs sb rhs where
    op: "draw (gen_bin_op (bin_op_mask cfg)) s1 = Some (Inr (op, sa))" and
    lhs: "gen_with_weights n D cfg w1 sa = Some (Inr (lhs, sb))" and
    rhs: "gen_with_weights n D cfg w1 sb = Some (Inr (rhs, s1'))" and
    e: "e = BinaryExpr
          (if expr_precedence D lhs > bin_op_precedence D op then ParenthesizedExpr lhs else lhs)
          op
          (if expr_precedence D rhs \<ge> bin_op_precedence D op then ParenthesizedExpr rhs else rhs)"
    by (rule gen_binary_exprE)
  let ?a = "[Call_gen_bin_op]"
  from draw_transfer[OF op eng gen_bin_op_outcome gen_bin_op_effect]
  have sa: "sa = log_calls ?a s1"
    and op2: "draw (gen_bin_op (bin_op_mask cfg)) s2 = Some (Inr (op, log_calls ?a s2))"
    by simp_all
  have "frames sa ! w1 = frames (log_calls ?a s2) ! w2"
    "same_engine (rng sa) (rng (log_calls ?a s2))"
    using fr eng by (simp_all add: sa same_engine_logged)
  from IH[OF lhs this] obtain cl where
    sb: "sb = log_calls cl sa" and
    lhs2: "gen_with_weights n D cfg w2 (log_calls ?a s2) = Some (Inr (lhs, log_calls (?a @ cl) s2))"
    by auto
  have "frames sb ! w1 = frames (log_calls (?a @ cl) s2) ! w2"
    "same_engine (rng sb) (rng (log_calls (?a @ cl) s2))"
    using fr eng by (simp_all add: sa sb same_engine_logged)
  from IH[OF rhs this] obtain cr where
    s1': "s1' = log_calls cr sb" and
    rhs2: "gen_with_weights n D cfg w2 (log_calls (?a @ cl) s2) =
             Some (Inr (rhs, log_calls (?a @ cl @ cr) s2))"
    by auto
  have "s1' = log_calls (?a @ cl @ cr) s1"
    unfolding s1' sb sa by simp
  moreover have "dispatch n D cfg kind w2 s2 = Some (Inr (e, log_calls (?a @ cl @ cr) s2))"
    using op2 lhs2 rhs2
    by (simp add: dispatch_def ExprKind_BinaryExpr gen_binary_expr.simps e return_gen_def)
  ultimately show ?thesis by blast
next
  case ExprKind_UnaryExpr
  with run have "gen_unary_expr n D cfg w1 s1 = Some (Inr (e, s1'))"
    by (simp add: dispatch_def)
  then obtain operand sa op where
    operand: "gen_with_weights n D cfg w1 s1 = Some (Inr (operand, sa))" and
    op: "draw (gen_un_op (un_op_mask cfg)) sa = Some (Inr (op, s1'))" and
    e: "e = UnaryExpr op
          (if expr_precedence D operand > UnaryExpr_PRECEDENCE D
           then ParenthesizedExpr operand else operand)"
    by (rule gen_unary_exprE)
  from IH[OF operand fr eng] obtain co where
    sa: "sa = log_calls co s1" and
    operand2: "gen_with_weights n D cfg w2 s2 = Some (Inr (operand, log_calls co s2))"
    by auto
  have "same_engine (rng sa) (rng (log_calls co s2))"
    using eng by (simp add: sa same_engine_logged)
  from draw_transfer[OF op this gen_un_op_outcome gen_un_op_effect]
  have s1': "s1' = log_calls [Call_gen_un_op] sa"
    and op2: "draw (gen_un_op (un_op_mask cfg)) (log_calls co s2) =
        Some (Inr (op, log_calls (co @ [Call_gen_un_op]) s2))"
    by simp_all
  have "s1' = log_calls (co @ [Call_gen_un_op]) s1"
    unfolding s1' sa by simp
  moreover have "dispatch n D cfg kind w2 s2 =
      Some (Inr (e, log_calls (co @ [Call_gen_un_op]) s2))"
    using operand2 op2
    by (simp add: dispatch_def ExprKind_UnaryExpr gen_unary_expr.simps e return_gen_def)
  ultimately show ?thesis by blast
qed

lemma gen_with_weights_transfer:
  "gen_with_weights n D cfg w1 s1 = Some (Inr (e, s1')) \<Longrightarrow>
   frames s1 ! w1 = frames s2 ! w2 \<Longrightarrow> same_engine (rng s1) (rng s2) \<Longrightarrow>
   \<exists>cs. s1' = log_calls cs s1 \<and>
        gen_with_weights n D cfg w2 s2 = Some (Inr (e, log_calls cs s2))"
proof (induction n arbitrary: w1 s1 w2 s2 e s1')
  case 0
  then show ?case by (simp add: gen_with_weights.simps)
next
  case (Suc n)
  from Suc.prems(1) obtain kind r1 expr sb p sc where
    kind: "gen_expr_kind (frames s1 ! w1) (rng s1) = Inr (kind, r1)" and
    disp: "dispatch n D cfg kind (length (frames s1)) (dispatch_state cfg kind w1 r1 s1) =
       Some (Inr (expr, sb))" and
    par: "draw (gen_parenthesize (parenthesize_prob cfg)) sb = Some (Inr (p, sc))" and
    e: "e = (if p then ParenthesizedExpr expr else expr)" and
    s1': "s1' = pop_frame sc"
    by (rule gen_with_weights_SucE)
  let ?k = "[Call_gen_expr_kind]"
  have d1: "draw (gen_expr_kind (frames s1 ! w1)) s1 = Some (Inr (kind, s1\<lparr>rng := r1\<rparr>))"
    using kind by (simp add: draw_def)
  from draw_transfer[OF d1 Suc.prems(3) gen_expr_kind_outcome gen_expr_kind_effect]
  have r1: "s1\<lparr>rng := r1\<rparr> = log_calls ?k s1"
    and kind2: "draw (gen_expr_kind (frames s1 ! w1)) s2 = Some (Inr (kind, log_calls ?k s2))"
    by simp_all
  have r1': "r1 = logged ?k (rng s1)"
    using kind by (rule gen_expr_kind_effect)
  let ?d1 = "dispatch_state cfg kind w1 r1 s1"
  let ?d2 = "dispatch_state cfg kind w2 (logged ?k (rng s2)) s2"
  have "frames ?d1 ! length (frames s1) = frames ?d2 ! length (frames s2)"
    "same_engine (rng ?d1) (rng ?d2)"
    using Suc.prems(2,3) by (simp_all add: dispatch_state_def r1' same_engine_logged)
  with disp have "\<exists>cs. sb = log_calls cs ?d1 \<and>
      dispatch n D cfg kind (length (frames s2)) ?d2 = Some (Inr (expr, log_calls cs ?d2))"
    by (rule dispatch_transfer_step[rotated]) (rule Suc.IH; assumption)
  then obtain cs where
    sb: "sb = log_calls cs ?d1" and
    disp2: "dispatch n D cfg kind (length (frames s2)) ?d2 = Some (Inr (expr, log_calls cs ?d2))"
    by blast
  have mp: "maybe_parenthesized cfg expr sb = Some (Inr (e, sc))"
    using par e by (auto simp: maybe_parenthesized_Inr)
  have "same_engine (rng sb) (rng (log_calls cs ?d2))"
    using Suc.prems(3) by (simp add: sb dispatch_state_def r1' same_engine_logged)
  from leaf_transfers(4)[OF this mp]
  have mp2: "maybe_parenthesized cfg expr (log_calls cs ?d2) =
      Some (Inr (e, log_calls (cs @ [Call_gen_parenthesize]) ?d2))"
    by simp
  from par have sc: "sc = log_calls [Call_gen_parenthesize] sb"
    by (rule draw_effect) (rule gen_parenthesize_effect)
  have "s1' = log_calls (cs @ [Call_gen_parenthesize]) (s1\<lparr>rng := r1\<rparr>)"
    unfolding s1' sc sb by (simp add: pop_dispatch_state)
  then have one: "s1' = log_calls (?k @ cs @ [Call_gen_parenthesize]) s1"
    by (simp add: r1)
  have "pop_frame (log_calls (cs @ [Call_gen_parenthesize]) ?d2) =
        log_calls (?k @ cs @ [Call_gen_parenthesize]) s2"
    by (simp add: pop_dispatch_state)
  then have two: "gen_with_weights (Suc n) D cfg w2 s2 =
      Some (Inr (e, log_calls (?k @ cs @ [Call_gen_parenthesize]) s2))"
    using kind2 disp2 mp2 Suc.prems(2)
    by (simp add: gen_with_weights_Suc return_gen_def)
  from one two show ?case by blast
qed

lemma dispatch_mono_step:
  assumes IH: "\<And>w s r. gen_with_weights n D cfg w s = Some r \<Longrightarrow>
                 gen_with_weights (Suc n) D cfg w s = Some r"
    and "dispatch n D cfg kind w s = Some r"
  shows "dispatch (Suc n) D cfg kind w s = Some r"
proof (cases kind)
  case ExprKind_BinaryExpr
  with assms(2) have "gen_binary_expr n D cfg w s = Some r"
    by (simp add: dispatch_def)
  then have "gen_binary_expr (Suc n) D cfg w s = Some r"
    unfolding gen_binary_expr.simps
    by (elim bind_gen_mono) (assumption | rule IH)+
  with ExprKind_BinaryExpr show ?thesis by (simp add: dispatch_def)
next
  case ExprKind_UnaryExpr
  with assms(2) have "gen_unary_expr n D cfg w s = Some r"
    by (simp add: dispatch_def)
  then have "gen_unary_expr (Suc n) D cfg w s = Some r"
    unfolding gen_unary_expr.simps
    by (elim bind_gen_mono) (assumption | rule IH)+
  with ExprKind_UnaryExpr show ?thesis by (simp add: dispatch_def)
qed (use assms(2) in \<open>simp_all add: dispatch_def\<close>)

lemma gen_with_weights_mono_Suc:
  "gen_with_weights n D cfg w s = Some r \<Longrightarrow> gen_with_weights (Suc n) D cfg w s = Some r"
proof (induction n arbitrary: w s r)
  case 0
  then show ?case by (simp add: gen_with_weights.simps)
next
  case (Suc n)
  have disp: "dispatch (Suc n) D cfg kind w s = Some r"
    if "dispatch n D cfg kind w s = Some r" for kind w s r
  proof (rule dispatch_mono_step)
    show "\<And>w s r. gen_with_weights n D cfg w s = Some r \<Longrightarrow>
            gen_with_weights (Suc n) D cfg w s = Some r"
      by (rule Suc.IH)
    show "dispatch n D cfg kind w s = Some r"
      by (rule that)
  qed
  from Suc.prems show ?case
    unfolding gen_with_weights_Suc[of "Suc n"] gen_with_weights_Suc[of n]
    by (elim bind_gen_mono) (assumption | rule disp)+
qed

lemma gen_with_weights_mono:
  assumes "gen_with_weights n D cfg w s = Some r" and "n \<le> m"
  shows "gen_with_weights m D cfg w s = Some r"
  using assms(2,1)
proof (induction m rule: dec_induct)
  case base
  then show ?case .
next
  case (step m)
  from step.IH[OF step.prems] show ?case
    by (rule gen_with_weights_mono_Suc)
qed

lemma generate_mono:
  assumes "generate n D cfg s = Some r" and "n \<le> m"
  shows "generate m D cfg s = Some r"
  using assms(1) unfolding generate_def Let_def
  by (elim bind_gen_mono) (assumption | rule gen_with_weights_mono[OF _ assms(2)])+

text \<open>
  Claim C7. If a run of \<^verbatim>\<open>generate\<close> returns a tree, then every run with the same
  configuration on an engine in the same state (the same seed) returns the same tree
  and issues the same sequence of calls on its random source, and no bound on the
  nesting makes the second run end in any other way.
\<close>

theorem generate_deterministic:
  assumes "generate n1 D cfg s1 = Some (Inr (e, s1'))"
    and "same_engine (rng s1) (rng s2)"
  shows "\<exists>cs. s1' = log_calls cs s1 \<and>
              calls_made (rng s1') = calls_made (rng s1) @ cs \<and>
              generate n1 D cfg s2 = Some (Inr (e, log_calls cs s2)) \<and>
              calls_made (rng (log_calls cs s2)) = calls_made (rng s2) @ cs \<and>
              (\<forall>n2 r. generate n2 D cfg s2 = Some r \<longrightarrow> r = Inr (e, log_calls cs s2))"
proof -
  let ?w = "initial_weights D cfg"
  from assms(1) obtain sx where
    run: "gen_with_weights n1 D cfg (length (frames s1)) (push_frame ?w s1) = Some (Inr (e, sx))"
    and s1': "s1' = pop_frame sx"
    by (auto simp: generate_def Let_def bind_gen_Inr return_gen_Inr)
  have "frames (push_frame ?w s1) ! length (frames s1) =
        frames (push_frame ?w s2) ! length (frames s2)"
    "same_engine (rng (push_frame ?w s1)) (rng (push_frame ?w s2))"
    using assms(2) by (simp_all add: push_frame_def)
  from gen_with_weights_transfer[OF run this] obtain cs where
    sx: "sx = log_calls cs (push_frame ?w s1)" and
    run2: "gen_with_weights n1 D cfg (length (frames s2)) (push_frame ?w s2) =
      Some (Inr (e, log_calls cs (push_frame ?w s2)))"
    by blast
  have pop: "\<And>s. pop_frame (log_calls cs (push_frame ?w s)) = log_calls cs s"
    by (simp add: pop_frame_def push_frame_def log_calls_def)
  have one: "s1' = log_calls cs s1"
    unfolding s1' sx by (rule pop)
  have two: "generate n1 D cfg s2 = Some (Inr (e, log_calls cs s2))"
    using run2 by (simp add: generate_def Let_def return_gen_def pop)
  have three: "r = Inr (e, log_calls cs s2)" if "generate n2 D cfg s2 = Some r" for n2 r
  proof -
    from that have "generate (max n1 n2) D cfg s2 = Some r"
      by (rule generate_mono) simp
    moreover from two have "generate (max n1 n2) D cfg s2 = Some (Inr (e, log_calls cs s2))"
      by (rule generate_mono) simp
    ultimately show ?thesis by simp
  qed
  show ?thesis
  proof (intro exI[of _ cs] conjI allI impI)
    show "s1' = log_calls cs s1" by (rule one)
    show "calls_made (rng s1') = calls_made (rng s1) @ cs" by (simp add: one)
    show "generate n1 D cfg s2 = Some (Inr (e, log_calls cs s2))" by (rule two)
    show "calls_made (rng (log_calls cs s2)) = calls_made (rng s2) @ cs" by simp
    show "r = Inr (e, log_calls cs s2)" if "generate n2 D cfg s2 = Some r" for n2 r
      using that by (rule three)
  qed
qed

theorem generate_deterministic_witness:
  "same_engine (rng (ex_start (outputs_binary_at 0))) (rng (ex_start_used (outputs_binary_at 0))) \<and>
   (\<exists>e s'. generate (Suc (Suc 0)) ex_decls ex_cfg (ex_start (outputs_binary_at 0)) =
       Some (Inr (e, s')) \<and>
     e = BinaryExpr (IntegerConstant 3) 0 (IntegerConstant 6) \<and>
     tree_of (generate (Suc (Suc 0)) ex_decls ex_cfg (ex_start_used (outputs_binary_at 0))) =
       Some (Inr e))"
proof -
  have eng: "same_engine (rng (ex_start (outputs_binary_at 0)))
      (rng (ex_start_used (outputs_binary_at 0)))"
    by (simp add: same_engine_def ex_simps)
  have "\<exists>e s'. generate (Suc (Suc 0)) ex_decls ex_cfg (ex_start (outputs_binary_at 0)) =
      Some (Inr (e, s')) \<and> e = BinaryExpr (IntegerConstant 3) 0 (IntegerConstant 6)"
    by (simp add: ex_simps run_simps mod_Suc)
  then obtain e s' where
    run: "generate (Suc (Suc 0)) ex_decls ex_cfg (ex_start (outputs_binary_at 0)) =
      Some (Inr (e, s'))" and
    e: "e = BinaryExpr (IntegerConstant 3) 0 (IntegerConstant 6)"
    by blast
  from generate_deterministic[OF run eng] obtain cs where
    "generate (Suc (Suc 0)) ex_decls ex_cfg (ex_start_used (outputs_binary_at 0)) =
       Some (Inr (e, log_calls cs (ex_start_used (outputs_binary_at 0))))"
    by blast
  then have "tree_of (generate (Suc (Suc 0)) ex_decls ex_cfg (ex_start_used (outputs_binary_at 0))) =
       Some (Inr e)"
    by (simp add: tree_of_def)
  with eng run e show ?thesis by blast
qed

section \<open>A configuration without leaf kinds\<close>

text \<open>
  Termination with probability 1 (claim C8) speaks about a probability measure on the
  runs and is not stated here. One fact about it needs no measure: with the real
  weights of this model, a configuration whose only positive initial weight is that of
  \<open>BinaryExpr\<close>, with a positive dampening factor, draws \<open>BinaryExpr\<close> at every
  level, so no run of \<^verbatim>\<open>generate\<close> returns a tree, whatever the engine and the
  bound on the nesting are.
\<close>

lemma gen_expr_kind_binary_only:
  assumes zero: "\<forall>k. k \<noteq> ExprKind_BinaryExpr \<longrightarrow> expr_weights w k = 0"
    and pos: "0 < expr_weights w ExprKind_BinaryExpr"
  shows "gen_expr_kind w r = Inr (ExprKind_BinaryExpr, logged [Call_gen_expr_kind] r)"
proof -
  let ?b = "expr_weights w ExprKind_BinaryExpr"
  let ?u = "generate_canonical (engine_outputs r (engine_pos r))"
  have u: "0 \<le> ?u" "?u < 1"
    by (rule generate_canonical_bounds)+
  have lo: "\<not> ?b * ?u < 0"
    using pos u(1) by (simp add: not_less)
  have hi: "?b * ?u < ?b"
    using pos u(2) by simp
  show ?thesis
    using zero pos lo hi
    by (simp add: gen_expr_kind_def all_expr_kinds_def uniform_real_distribution_def
        engine_next_def note_call_def logged_def)
qed

lemma binary_only_never_returns:
  assumes "\<forall>k. k \<noteq> ExprKind_BinaryExpr \<longrightarrow> expr_weights (frames s ! weights) k = 0"
    and "0 < expr_weights (frames s ! weights) ExprKind_BinaryExpr"
    and damp: "0 < dampening_factor (expr_kind_weights cfg ExprKind_BinaryExpr)"
  shows "gen_with_weights n D cfg weights s \<noteq> Some (Inr (e, s'))"
  using assms(1,2)
proof (induction n arbitrary: weights s e s')
  case 0
  show ?case by (simp add: gen_with_weights.simps)
next
  case (Suc n)
  show ?case
  proof
    assume "gen_with_weights (Suc n) D cfg weights s = Some (Inr (e, s'))"
    then obtain kind r1 expr s2 where
      kind: "gen_expr_kind (frames s ! weights) (rng s) = Inr (kind, r1)" and
      disp: "dispatch n D cfg kind (length (frames s)) (dispatch_state cfg kind weights r1 s) =
         Some (Inr (expr, s2))"
      by (rule gen_with_weights_SucE)
    from kind gen_expr_kind_binary_only[OF Suc.prems, of "rng s"]
    have k: "kind = ExprKind_BinaryExpr"
      by simp
    let ?s1 = "dispatch_state cfg kind weights r1 s"
    from disp k have "gen_binary_expr n D cfg (length (frames s)) ?s1 = Some (Inr (expr, s2))"
      by (simp add: dispatch_def)
    then obtain op sa lhs sb where
      op: "draw (gen_bin_op (bin_op_mask cfg)) ?s1 = Some (Inr (op, sa))" and
      lhs: "gen_with_weights n D cfg (length (frames s)) sa = Some (Inr (lhs, sb))"
      by (rule gen_binary_exprE)
    from op have "sa = log_calls [Call_gen_bin_op] ?s1"
      by (rule draw_effect) (rule gen_bin_op_effect)
    then have top: "frames sa ! length (frames s) = dampen cfg kind (frames s ! weights)"
      by (simp add: frames_dispatch_state)
    have "\<forall>k. k \<noteq> ExprKind_BinaryExpr \<longrightarrow> expr_weights (frames sa ! length (frames s)) k = 0"
      "0 < expr_weights (frames sa ! length (frames s)) ExprKind_BinaryExpr"
      using Suc.prems damp by (simp_all add: top k dampen_def)
    from Suc.IH[OF this]
    have "gen_with_weights n D cfg (length (frames s)) sa \<noteq> Some (Inr (lhs, sb))" .
    with lhs show False by contradiction
  qed
qed

lemma binary_only_generate_never_returns:
  assumes "\<forall>k. initial_weight (expr_kind_weights cfg k) =
             (if k = ExprKind_BinaryExpr then 1 else 0)"
    and "0 < dampening_factor (expr_kind_weights cfg ExprKind_BinaryExpr)"
  shows "generate n D cfg s \<noteq> Some (Inr (e, s'))"
proof
  assume "generate n D cfg s = Some (Inr (e, s'))"
  then obtain s1 where
    run: "gen_with_weights n D cfg (length (frames s)) (push_frame (initial_weights D cfg) s) =
      Some (Inr (e, s1))"
    by (auto simp: generate_def Let_def bind_gen_Inr return_gen_Inr)
  have "\<forall>k. k \<noteq> ExprKind_BinaryExpr \<longrightarrow>
      expr_weights (frames (push_frame (initial_weights D cfg) s) ! length (frames s)) k = 0"
    "0 < expr_weights (frames (push_frame (initial_weights D cfg) s) ! length (frames s))
      ExprKind_BinaryExpr"
    using assms(1) by (simp_all add: push_frame_def expr_weights_initial_weights)
  from binary_only_never_returns[OF this assms(2)]
  have "gen_with_weights n D cfg (length (frames s)) (push_frame (initial_weights D cfg) s) \<noteq>
      Some (Inr (e, s1))" .
  with run show False by contradiction
qed

end
